theory Spec2Isabelle
  imports Main "HOL-Library.Word" "HOL-Library.Multiset"
begin

unbundle bit_operations_syntax

section \<open>Board encoding\<close>

text \<open>
  The solver of \<^verbatim>\<open>solitaire.go\<close> packs the 7 x 7 grid into a \<^verbatim>\<open>uint64\<close>:
  \<^verbatim>\<open>printLine\<close> starts row \<open>line\<close> at the cell \<^verbatim>\<open>1 << (7 * line)\<close> and moves one bit
  to the left per column, so the cell in row \<open>r\<close> and column \<open>c\<close> is bit \<open>7 * r + c\<close>.
  The three board constants are the decimal literals of the source.
\<close>

type_synonym uint64 = "64 word"

definition VALID_BOARD_CELLS :: uint64 where
  "VALID_BOARD_CELLS = 124141734710812"

definition INITIAL_BOARD :: uint64 where
  "INITIAL_BOARD = 124141717933596"

definition GOAL_BOARD :: uint64 where
  "GOAL_BOARD = 16777216"

text \<open>
  The number of pegs on a board is the number of set bits among the 64 bit positions of
  the word. The source never computes it; it is the yardstick of the statements about
  solution paths.
\<close>

definition pegs :: "uint64 \<Rightarrow> nat" where
  "pegs board = length (filter (bit board) [0..<64])"

text \<open>The cells of the cross: bit \<open>i\<close> is row \<open>i div 7\<close>, column \<open>i mod 7\<close>.\<close>

definition inCross :: "nat \<Rightarrow> bool" where
  "inCross i = (i < 49 \<and> (2 \<le> i div 7 \<and> i div 7 \<le> 4 \<or> 2 \<le> i mod 7 \<and> i mod 7 \<le> 4))"

section \<open>Move table\<close>

text \<open>
  \<^verbatim>\<open>type Move struct { after, before, all uint64 }\<close>: \<open>after\<close> holds the peg a
  forward jump adds, \<open>before\<close> the two pegs it removes, \<open>all\<close> the three cells involved.
\<close>

record Move =
  after :: uint64
  before :: uint64
  all :: uint64

text \<open>
  \<^verbatim>\<open>createMoves(bit1, bit2, bit3, moves)\<close> appends two moves to \<open>moves\<close>, reusing the
  local \<open>newmove\<close> for the second one. The shift counts are Go \<^verbatim>\<open>int\<close>s that the two
  callers only ever fill with the non-negative literals of \<open>startsX\<close> and \<open>startsY\<close> (plus
  at most 14), so they are natural numbers here; \<^verbatim>\<open>1 << n\<close> on \<^verbatim>\<open>uint64\<close> is
  \<open>push_bit n 1\<close>, which is 0 from \<open>n = 64\<close> on, as in Go.
\<close>

definition createMoves :: "nat \<Rightarrow> nat \<Rightarrow> nat \<Rightarrow> Move list \<Rightarrow> Move list" where
  "createMoves bit1 bit2 bit3 moves =
     (let newmove = \<lparr>after = push_bit bit1 1,
                     before = push_bit bit2 1 OR push_bit bit3 1,
                     all = push_bit bit1 1 OR push_bit bit2 1 OR push_bit bit3 1\<rparr>;
          moves = moves @ [newmove];
          newmove = newmove\<lparr>after := push_bit bit3 1\<rparr>;
          newmove = newmove\<lparr>before := push_bit bit2 1 OR push_bit bit1 1\<rparr>;
          newmove = newmove\<lparr>all := push_bit bit1 1 OR push_bit bit2 1 OR push_bit bit3 1\<rparr>;
          moves = moves @ [newmove]
      in moves)"

definition startsX :: "nat list" where
  "startsX = [2, 9, 14, 15, 16, 17, 18, 21, 22, 23, 24, 25, 28, 29, 30, 31, 32, 37, 44]"

definition startsY :: "nat list" where
  "startsY = [2, 3, 4, 9, 10, 11, 14, 15, 16, 17, 18, 19, 20, 23, 24, 25, 30, 31, 32]"

text \<open>
  The two \<^verbatim>\<open>for ... range\<close> loops at the head of \<^verbatim>\<open>main\<close>, which fill the global
  \<open>Moves\<close> (initially empty) before it is shuffled.
\<close>

definition generateMoves :: "Move list" where
  "generateMoves =
     (let Moves = foldl (\<lambda>Moves x. createMoves x (x + 1) (x + 2) Moves) [] startsX;
          Moves = foldl (\<lambda>Moves y. createMoves y (y + 7) (y + 14) Moves) Moves startsY
      in Moves)"

text \<open>The properties every entry of the generated table has.\<close>

definition wellFormed :: "Move \<Rightarrow> bool" where
  "wellFormed m = (pegs (after m) = 1 \<and> pegs (before m) = 2 \<and> after m AND before m = 0
     \<and> all m = after m OR before m)"

definition onBoard :: "uint64 \<Rightarrow> bool" where
  "onBoard board = (board AND VALID_BOARD_CELLS = board)"

section \<open>Search\<close>

text \<open>
  The globals \<^verbatim>\<open>seenBoards\<close> and \<^verbatim>\<open>Solution\<close> that \<^verbatim>\<open>search\<close> mutates are the
  state passed through the model. \<^verbatim>\<open>seenBoards\<close> is a \<^verbatim>\<open>map[uint64]bool\<close> in which
  only \<^verbatim>\<open>true\<close> is ever stored and a missing key reads as \<^verbatim>\<open>false\<close>: it is the set of
  its keys. The global \<^verbatim>\<open>Moves\<close> is not written after the shuffle and is a parameter.
\<close>

record state =
  seenBoards :: "uint64 set"
  Solution :: "uint64 list"

text \<open>
  \<^verbatim>\<open>search(board)\<close>: the \<^verbatim>\<open>for _, move := range Moves\<close> loop is the recursion on
  the second argument, the moves still to try; the recursive call \<^verbatim>\<open>search(newBoard)\<close>
  restarts it on the whole table. \<^verbatim>\<open>||\<close> is short-circuit: reaching
  \<open>INITIAL_BOARD\<close> makes no recursive call.
\<close>

function (sequential) search_loop ::
  "Move list \<Rightarrow> Move list \<Rightarrow> uint64 \<Rightarrow> state \<Rightarrow> bool \<times> state" where
  "search_loop Moves [] board s = (False, s)"
| "search_loop Moves (move # rest) board s =
     (if before move AND board = 0 \<and> after move AND board \<noteq> 0 then
        (let newBoard = board XOR all move in
         if newBoard \<notin> seenBoards s then
           (let s1 = s\<lparr>seenBoards := insert newBoard (seenBoards s)\<rparr> in
            if newBoard = INITIAL_BOARD then (True, s1\<lparr>Solution := Solution s1 @ [board]\<rparr>)
            else (case search_loop Moves Moves newBoard s1 of
                    (True, s2) \<Rightarrow> (True, s2\<lparr>Solution := Solution s2 @ [board]\<rparr>)
                  | (False, s2) \<Rightarrow> search_loop Moves rest board s2))
         else search_loop Moves rest board s)
      else search_loop Moves rest board s)"
  by pat_completeness auto

text \<open>
  The recursion is nested: the state after a failed recursive call feeds the rest of the
  loop. On the domain of the function the visited set only grows, which is what the
  termination proof needs to know about that state.
\<close>

lemma search_loop_seen_mono_dom:
  "search_loop_dom (Moves, ms, board, s) \<Longrightarrow>
   seenBoards s \<subseteq> seenBoards (snd (search_loop Moves ms board s))"
proof (induction Moves ms board s rule: search_loop.pinduct)
  case (1 Moves board s)
  then show ?case by (simp add: search_loop.psimps)
next
  case (2 Moves move rest board s)
  let ?nb = "board XOR all move"
  let ?s1 = "s\<lparr>seenBoards := insert ?nb (seenBoards s)\<rparr>"
  show ?case
  proof (cases "before move AND board = 0 \<and> after move AND board \<noteq> 0")
    case False
    with 2 show ?thesis by (auto simp: search_loop.psimps)
  next
    case legal: True
    show ?thesis
    proof (cases "?nb \<in> seenBoards s")
      case True
      with 2 legal show ?thesis by (auto simp: search_loop.psimps)
    next
      case new: False
      show ?thesis
      proof (cases "?nb = INITIAL_BOARD")
        case True
        with 2(1) legal new show ?thesis by (auto simp: search_loop.psimps)
      next
        case notinit: False
        obtain r s2 where rec: "search_loop Moves Moves ?nb ?s1 = (r, s2)"
          by (cases "search_loop Moves Moves ?nb ?s1")
        from 2(2) [OF legal refl new refl notinit] rec
        have sub1: "seenBoards ?s1 \<subseteq> seenBoards s2" by simp
        show ?thesis
        proof (cases r)
          case True
          with 2(1) legal new notinit rec sub1 show ?thesis
            by (auto simp: search_loop.psimps)
        next
          case False
          from 2(3) [OF legal refl new refl notinit rec [symmetric]] False
          have "seenBoards s2 \<subseteq> seenBoards (snd (search_loop Moves rest board s2))"
            by simp
          with 2(1) legal new notinit rec sub1 False show ?thesis
            by (auto simp: search_loop.psimps)
        qed
      qed
    qed
  qed
qed

lemma card_unseen_insert:
  fixes S :: "uint64 set"
  assumes "x \<notin> S"
  shows "card (UNIV - insert x S) < card (UNIV - S)"
  by (rule psubset_card_mono) (use assms in auto)

lemma card_unseen_mono:
  fixes S :: "uint64 set"
  assumes "S \<subseteq> T"
  shows "card (UNIV - T) \<le> card (UNIV - S)"
  by (rule card_mono) (use assms in auto)

text \<open>
  Every call is in the domain: a recursive call \<^verbatim>\<open>search(newBoard)\<close> happens right
  after \<open>newBoard\<close>, so far unseen, went into the visited set, which leaves one board
  fewer outside it; the calls for the rest of the loop keep the visited set or enlarge it
  and have one move fewer to try. There are \<open>2 ^ 64\<close> boards.
\<close>

lemma search_loop_dom_all: "search_loop_dom x"
proof -
  have "All search_loop_dom"
  proof (relation "inv_image (less_than <*lex*> less_than)
           (\<lambda>(Moves, ms, board, s). (card (UNIV - seenBoards s), length ms))", goal_cases)
    case 1
    then show ?case by (intro wf_inv_image wf_lex_prod wf_less_than)
  next
    case (2 Moves move rest board s x xa)
    then have "card (UNIV - seenBoards xa) < card (UNIV - seenBoards s)"
      using card_unseen_insert [of x "seenBoards s"] by simp
    then show ?case by simp
  next
    case (3 Moves move rest board s x xa xb y)
    from \<open>search_loop_dom (Moves, Moves, x, xa)\<close>
    have "seenBoards xa \<subseteq> seenBoards (snd (search_loop Moves Moves x xa))"
      by (rule search_loop_seen_mono_dom)
    moreover have "snd (search_loop Moves Moves x xa) = y"
      using \<open>(xb, y) = search_loop Moves Moves x xa\<close> by (metis snd_conv)
    moreover have "seenBoards xa = insert x (seenBoards s)"
      using \<open>xa = s\<lparr>seenBoards := insert x (seenBoards s)\<rparr>\<close> by simp
    ultimately have "seenBoards s \<subseteq> seenBoards y"
      by auto
    from card_unseen_mono [OF this]
    have "card (UNIV - seenBoards y) \<le> card (UNIV - seenBoards s)" .
    then show ?case by auto
  next
    case 4
    then show ?case by simp
  next
    case 5
    then show ?case by simp
  qed
  then show ?thesis ..
qed

termination search_loop
  using search_loop_dom_all by blast

definition search :: "Move list \<Rightarrow> uint64 \<Rightarrow> state \<Rightarrow> bool \<times> state" where
  "search Moves board s = search_loop Moves Moves board s"

text \<open>
  The state in which \<^verbatim>\<open>main\<close> calls \<^verbatim>\<open>search(GOAL_BOARD)\<close>: nothing seen, and
  \<open>INITIAL_BOARD\<close> appended to the empty \<open>Solution\<close>.
\<close>

definition initialState :: state where
  "initialState = \<lparr>seenBoards = {}, Solution = [] @ [INITIAL_BOARD]\<rparr>"

text \<open>
  What the statements about solution paths speak of: a reverse move of the table leads
  from \<open>board\<close> to \<open>newBoard\<close> if it passes the test of \<^verbatim>\<open>search\<close> on \<open>board\<close> and
  \<open>newBoard\<close> is the board computed from it; a list of boards is a chain of jumps if
  each entry arises from its successor by such a move.
\<close>

definition reverseStep :: "Move list \<Rightarrow> uint64 \<Rightarrow> uint64 \<Rightarrow> bool" where
  "reverseStep Moves board newBoard =
     list_ex (\<lambda>move. before move AND board = 0 \<and> after move AND board \<noteq> 0
        \<and> newBoard = board XOR all move) Moves"

fun jumps :: "Move list \<Rightarrow> uint64 list \<Rightarrow> bool" where
  "jumps Moves (prev # nxt # rest) = (reverseStep Moves nxt prev \<and> jumps Moves (nxt # rest))"
| "jumps Moves _ = True"

section \<open>Printing\<close>

text \<open>
  Indexing a slice outside \<open>0 .. len - 1\<close> panics in Go; the model returns the panic as
  a value. The loop counters \<open>i\<close> and \<open>k\<close> are Go \<^verbatim>\<open>int\<close>s, integers here (the
  values stay far below \<open>2 ^ 63\<close>); the row counter only counts up from 0 and is a
  natural number.
\<close>

datatype error = IndexOutOfRange int nat

definition index :: "uint64 list \<Rightarrow> int \<Rightarrow> error + uint64" where
  "index xs i = (if 0 \<le> i \<and> i < int (length xs) then Inr (xs ! nat i)
                 else Inl (IndexOutOfRange i (length xs)))"

definition colorReset :: string where
  "colorReset = CHR 0x1B # ''[0m''"

definition colorRed :: string where
  "colorRed = CHR 0x1B # ''[31m''"

text \<open>
  \<^verbatim>\<open>printLine(board, line)\<close> of \<^verbatim>\<open>solitaire.go\<close>, as the text it writes to
  standard output: seven cells, a red \<open>X\<close> for a peg, \<open>0\<close> for an empty hole and a blank
  outside the cross.
\<close>

function printLine_loop :: "uint64 \<Rightarrow> nat \<Rightarrow> uint64 \<Rightarrow> string" where
  "printLine_loop board i cell =
     (if i < 7 then
        (let validCell = (cell AND VALID_BOARD_CELLS \<noteq> 0);
             printed = (if validCell then
                          (if cell AND board \<noteq> 0 then colorRed @ ''X'' @ colorReset
                           else ''0'')
                        else '' '');
             cell = push_bit 1 cell
         in printed @ printLine_loop board (i + 1) cell)
      else [])"
  by pat_completeness auto
termination
  by (relation "measure (\<lambda>(board, i, cell). 7 - i)") auto

definition printLine :: "uint64 \<Rightarrow> nat \<Rightarrow> string" where
  "printLine board line = printLine_loop board 0 (push_bit (7 * line) 1)"

text \<open>
  The printing loops of \<^verbatim>\<open>main\<close>, innermost first; \<open>out\<close> is the text written so
  far. \<open>main_steps\<close> is the \<open>k\<close> loop over up to 16 boards of one row of text, which
  breaks after the last entry of \<open>Solution\<close>; \<open>main_rows\<close> is the \<open>m\<close> loop over the 7
  rows, which leaves the last value of \<open>k\<close> behind; \<open>main_print\<close> is the \<open>i\<close> loop over
  the blocks, where \<^verbatim>\<open>i = i + k - 1\<close> is followed by the \<^verbatim>\<open>i++\<close> of the loop header.
\<close>

function main_steps ::
  "uint64 list \<Rightarrow> int \<Rightarrow> nat \<Rightarrow> int \<Rightarrow> string \<Rightarrow> error + (int \<times> string)" where
  "main_steps solution i m k out =
     (if k < 16 then
        (case index solution (i + k) of
           Inl e \<Rightarrow> Inl e
         | Inr board \<Rightarrow>
             (let out = out @ printLine board m in
              if i + k = int (length solution) - 1 then Inr (k + 1, out)
              else main_steps solution i m (k + 1) (out @ ''   '')))
      else Inr (k, out))"
  by pat_completeness auto
termination
  by (relation "measure (\<lambda>(solution, i, m, k, out). nat (16 - k))") auto

function main_rows ::
  "uint64 list \<Rightarrow> int \<Rightarrow> nat \<Rightarrow> int \<Rightarrow> string \<Rightarrow> error + (int \<times> string)" where
  "main_rows solution i m k out =
     (if m < 7 then
        (case main_steps solution i m 0 out of
           Inl e \<Rightarrow> Inl e
         | Inr (k, out) \<Rightarrow> main_rows solution i (m + 1) k (out @ [CHR 0x0A]))
      else Inr (k, out))"
  by pat_completeness auto
termination
  by (relation "measure (\<lambda>(solution, i, m, k, out). 7 - m)") auto

declare printLine_loop.simps [simp del] main_steps.simps [simp del] main_rows.simps [simp del]

text \<open>
  The outer loop ends because each block advances \<open>i\<close>: the \<open>k\<close> loop runs its body at
  least once, so it leaves \<open>k\<close> at 1 or more.
\<close>

lemma main_steps_k:
  "main_steps solution i m k out = Inr (k', out') \<Longrightarrow> k \<le> k' \<and> (k < 16 \<longrightarrow> k < k')"
proof (induction solution i m k out rule: main_steps.induct)
  case (1 solution i m k out)
  note unfold = main_steps.simps [of solution i m k out]
  show ?case
  proof (cases "k < 16")
    case False
    with "1.prems" show ?thesis by (simp add: unfold)
  next
    case True
    from True "1.prems" obtain board where b: "index solution (i + k) = Inr board"
      by (auto simp: unfold split: sum.splits)
    show ?thesis
    proof (cases "i + k = int (length solution) - 1")
      case last: True
      with True b "1.prems" show ?thesis by (simp add: unfold Let_def)
    next
      case False
      with True b "1.prems"
      have "main_steps solution i m (k + 1) ((out @ printLine board m) @ ''   '') = Inr (k', out')"
        by (simp add: unfold Let_def)
      from "1.IH" [OF True b refl False this] show ?thesis by simp
    qed
  qed
qed

lemma main_rows_k:
  "main_rows solution i m k out = Inr (k', out') \<Longrightarrow> m < 7 \<or> 1 \<le> k \<Longrightarrow> 1 \<le> k'"
proof (induction solution i m k out rule: main_rows.induct)
  case (1 solution i m k out)
  note unfold = main_rows.simps [of solution i m k out]
  show ?case
  proof (cases "m < 7")
    case False
    with "1.prems" show ?thesis by (simp add: unfold)
  next
    case True
    with "1.prems" obtain k1 out1 where s: "main_steps solution i m 0 out = Inr (k1, out1)"
      and r: "main_rows solution i (m + 1) k1 (out1 @ [CHR 0x0A]) = Inr (k', out')"
      by (auto simp: unfold split: sum.splits prod.splits)
    from main_steps_k [OF s] have "1 \<le> k1" by simp
    with "1.IH" [OF True s refl r] show ?thesis by simp
  qed
qed

function main_print :: "uint64 list \<Rightarrow> int \<Rightarrow> string \<Rightarrow> error + string" where
  "main_print solution i out =
     (if i < int (length solution) then
        (case main_rows solution i 0 0 out of
           Inl e \<Rightarrow> Inl e
         | Inr (k, out) \<Rightarrow>
             (let i = i + k - 1;
                  out = out @ ''-------------'' @ [CHR 0x0A]
              in main_print solution (i + 1) out))
      else Inr out)"
  by pat_completeness auto
termination
proof (relation "measure (\<lambda>(solution, i, out). nat (int (length solution) - i))", goal_cases)
  case 1
  show ?case by simp
next
  case (2 solution i out b k out1 i1 out2)
  from main_rows_k [of solution i 0 0 out k out1] 2 have "1 \<le> k" by simp
  with 2 show ?case by simp
qed

declare main_print.simps [simp del]

text \<open>
  \<^verbatim>\<open>main\<close> from the call of \<^verbatim>\<open>search\<close> on; its argument is the table as
  \<^verbatim>\<open>rand.Shuffle\<close> left it. The call is a statement: the boolean that \<^verbatim>\<open>search\<close>
  returns is dropped, and \<open>Solution\<close> is printed whatever it was.
\<close>

definition main :: "Move list \<Rightarrow> error + string" where
  "main Moves =
     (let s = initialState;
          (found, s) = search Moves GOAL_BOARD s
      in main_print (Solution s) 0 [])"

section \<open>The later revision\<close>

text \<open>
  The later revision of the program has the same \<^verbatim>\<open>search\<close> and \<^verbatim>\<open>createMoves\<close>, but
  writes the three boards as binary text, one row of the grid per line with the top bit
  first, and has \<^verbatim>\<open>strconv.ParseUint(s, 2, 64)\<close> read them when the package is
  initialised. \<open>ParseUint2\<close> is that call of the standard library, for base 2 and bit
  size 64: an empty string is a syntax error; otherwise the bytes are read from left to
  right, and at each byte, in this order, a byte that is not a digit or letter, or whose
  digit value is not below the base, ends the call with 0 and a syntax error; a number
  already at \<^verbatim>\<open>cutoff\<close> or above, which doubling would overflow, ends it with \<^verbatim>\<open>maxVal\<close>
  and a range error; and so does an overflow of the addition of the digit. The underscore
  is only skipped for base 0. The declarations \<^verbatim>\<open>var X, _ = strconv.ParseUint(...)\<close>
  keep the number and drop the error.
\<close>

datatype NumError = ErrSyntax | ErrRange

definition cutoff :: uint64 where
  "cutoff = (- 1) div 2 + 1"

definition maxVal :: uint64 where
  "maxVal = push_bit 64 1 - 1"

definition lower :: "nat \<Rightarrow> nat" where
  "lower c = c OR (120 - 88)"

definition digit :: "char \<Rightarrow> nat option" where
  "digit ch =
     (let c = of_char ch in
      if 48 \<le> c \<and> c \<le> 57 then Some (c - 48)
      else if 97 \<le> lower c \<and> lower c \<le> 122 then Some (lower c - 97 + 10)
      else None)"

fun ParseUint2_loop :: "string \<Rightarrow> uint64 \<Rightarrow> uint64 \<times> NumError option" where
  "ParseUint2_loop [] n = (n, None)"
| "ParseUint2_loop (c # cs) n =
     (case digit c of
        None \<Rightarrow> (0, Some ErrSyntax)
      | Some d \<Rightarrow>
          if d \<ge> 2 then (0, Some ErrSyntax)
          else if n \<ge> cutoff then (maxVal, Some ErrRange)
          else (let n' = n * 2;
                    n1 = n' + of_nat d
                in if n1 < n' \<or> n1 > maxVal then (maxVal, Some ErrRange)
                   else ParseUint2_loop cs n1))"

definition ParseUint2 :: "string \<Rightarrow> uint64 \<times> NumError option" where
  "ParseUint2 s = (if s = [] then (0, Some ErrSyntax) else ParseUint2_loop s 0)"

definition VALID_BOARD_CELLS_text :: string where
  "VALID_BOARD_CELLS_text = ''0'' @
     ''0011100'' @
     ''0011100'' @
     ''1111111'' @
     ''1111111'' @
     ''1111111'' @
     ''0011100'' @
     ''0011100''"

definition INITIAL_BOARD_text :: string where
  "INITIAL_BOARD_text = ''0'' @
     ''0011100'' @
     ''0011100'' @
     ''1111111'' @
     ''1110111'' @
     ''1111111'' @
     ''0011100'' @
     ''0011100''"

definition GOAL_BOARD_text :: string where
  "GOAL_BOARD_text = ''0'' @
     ''0000000'' @
     ''0000000'' @
     ''0001000'' @
     ''0000000'' @
     ''0000000'' @
     ''0000000'' @
     ''0000000''"

definition VALID_BOARD_CELLS_parsed :: uint64 where
  "VALID_BOARD_CELLS_parsed = fst (ParseUint2 VALID_BOARD_CELLS_text)"

definition INITIAL_BOARD_parsed :: uint64 where
  "INITIAL_BOARD_parsed = fst (ParseUint2 INITIAL_BOARD_text)"

definition GOAL_BOARD_parsed :: uint64 where
  "GOAL_BOARD_parsed = fst (ParseUint2 GOAL_BOARD_text)"

text \<open>
  It prints through \<^verbatim>\<open>PrintSolution()\<close>, which hands \<^verbatim>\<open>printLine\<close> the previous
  board as well (the entry before, or entry 0 for the first) to colour the cells a move
  changed. \<open>VALID_BOARD_CELLS\<close> and \<open>INITIAL_BOARD\<close> stand for the parsed values, which
  are the literals of \<^verbatim>\<open>solitaire.go\<close> (\<open>parsed_constants\<close> below).
\<close>

definition colorBlue :: string where
  "colorBlue = CHR 0x1B # ''[34m''"

definition colorGrey :: string where
  "colorGrey = CHR 0x1B # ''[37m''"

definition colorWhite :: string where
  "colorWhite = CHR 0x1B # ''[97m''"

function printLine_prev_loop :: "uint64 \<Rightarrow> uint64 \<Rightarrow> nat \<Rightarrow> uint64 \<Rightarrow> string" where
  "printLine_prev_loop board prev_board i cell =
     (if i < 7 then
        (let validCell = (cell AND VALID_BOARD_CELLS \<noteq> 0);
             printed = (if validCell then
                          (if cell AND board \<noteq> 0 then
                             (if cell AND prev_board = 0 then colorRed else colorWhite)
                               @ ''X'' @ colorReset
                           else
                             (if cell AND prev_board \<noteq> 0 then colorBlue else colorGrey)
                               @ ''0'' @ colorReset)
                        else '' '');
             cell = push_bit 1 cell
         in printed @ printLine_prev_loop board prev_board (i + 1) cell)
      else [])"
  by pat_completeness auto
termination
  by (relation "measure (\<lambda>(board, prev_board, i, cell). 7 - i)") auto

definition printLine_prev :: "uint64 \<Rightarrow> uint64 \<Rightarrow> nat \<Rightarrow> string" where
  "printLine_prev board prev_board line =
     printLine_prev_loop board prev_board 0 (push_bit (7 * line) 1)"

function PrintSolution_steps ::
  "uint64 list \<Rightarrow> int \<Rightarrow> nat \<Rightarrow> int \<Rightarrow> string \<Rightarrow> error + (int \<times> string)" where
  "PrintSolution_steps solution i m k out =
     (if k < 16 then
        (let previous = i + k - 1;
             previous = (if previous < 0 then 0 else previous)
         in case index solution (i + k) of
              Inl e \<Rightarrow> Inl e
            | Inr board \<Rightarrow>
                (case index solution previous of
                   Inl e \<Rightarrow> Inl e
                 | Inr prev_board \<Rightarrow>
                     (let out = out @ printLine_prev board prev_board m in
                      if i + k = int (length solution) - 1 then Inr (k + 1, out)
                      else PrintSolution_steps solution i m (k + 1) (out @ ''   ''))))
      else Inr (k, out))"
  by pat_completeness auto
termination
  by (relation "measure (\<lambda>(solution, i, m, k, out). nat (16 - k))") auto

function PrintSolution_rows ::
  "uint64 list \<Rightarrow> int \<Rightarrow> nat \<Rightarrow> int \<Rightarrow> string \<Rightarrow> error + (int \<times> string)" where
  "PrintSolution_rows solution i m k out =
     (if m < 7 then
        (case PrintSolution_steps solution i m 0 out of
           Inl e \<Rightarrow> Inl e
         | Inr (k, out) \<Rightarrow> PrintSolution_rows solution i (m + 1) k (out @ [CHR 0x0A]))
      else Inr (k, out))"
  by pat_completeness auto
termination
  by (relation "measure (\<lambda>(solution, i, m, k, out). 7 - m)") auto

declare printLine_prev_loop.simps [simp del] PrintSolution_steps.simps [simp del]
  PrintSolution_rows.simps [simp del]

lemma PrintSolution_steps_k:
  "PrintSolution_steps solution i m k out = Inr (k', out') \<Longrightarrow> k \<le> k' \<and> (k < 16 \<longrightarrow> k < k')"
proof (induction solution i m k out rule: PrintSolution_steps.induct)
  case (1 solution i m k out)
  note unfold = PrintSolution_steps.simps [of solution i m k out]
  let ?previous = "if i + k - 1 < 0 then 0 else i + k - 1"
  show ?case
  proof (cases "k < 16")
    case False
    with "1.prems" show ?thesis by (simp add: unfold)
  next
    case True
    from True "1.prems" obtain board prev_board
      where b: "index solution (i + k) = Inr board"
        and p: "index solution ?previous = Inr prev_board"
      by (auto simp: unfold Let_def split: sum.splits)
    from True b p have eq: "PrintSolution_steps solution i m k out =
        (if i + k = int (length solution) - 1
         then Inr (k + 1, out @ printLine_prev board prev_board m)
         else PrintSolution_steps solution i m (k + 1)
                ((out @ printLine_prev board prev_board m) @ ''   ''))"
      by (simp add: unfold Let_def)
    show ?thesis
    proof (cases "i + k = int (length solution) - 1")
      case last: True
      with eq "1.prems" show ?thesis by simp
    next
      case False
      with eq "1.prems"
      have "PrintSolution_steps solution i m (k + 1)
          ((out @ printLine_prev board prev_board m) @ ''   '') = Inr (k', out')"
        by simp
      from "1.IH" [OF True refl refl b p refl False this] show ?thesis by simp
    qed
  qed
qed

lemma PrintSolution_rows_k:
  "PrintSolution_rows solution i m k out = Inr (k', out') \<Longrightarrow> m < 7 \<or> 1 \<le> k \<Longrightarrow> 1 \<le> k'"
proof (induction solution i m k out rule: PrintSolution_rows.induct)
  case (1 solution i m k out)
  note unfold = PrintSolution_rows.simps [of solution i m k out]
  show ?case
  proof (cases "m < 7")
    case False
    with "1.prems" show ?thesis by (simp add: unfold)
  next
    case True
    with "1.prems" obtain k1 out1
      where s: "PrintSolution_steps solution i m 0 out = Inr (k1, out1)"
        and r: "PrintSolution_rows solution i (m + 1) k1 (out1 @ [CHR 0x0A]) = Inr (k', out')"
      by (auto simp: unfold split: sum.splits prod.splits)
    from PrintSolution_steps_k [OF s] have "1 \<le> k1" by simp
    with "1.IH" [OF True s refl r] show ?thesis by simp
  qed
qed

function PrintSolution_loop :: "uint64 list \<Rightarrow> int \<Rightarrow> string \<Rightarrow> error + string" where
  "PrintSolution_loop solution i out =
     (if i < int (length solution) then
        (case PrintSolution_rows solution i 0 0 out of
           Inl e \<Rightarrow> Inl e
         | Inr (k, out) \<Rightarrow>
             (let i = i + k - 1;
                  out = out @ ''-------------'' @ [CHR 0x0A]
              in PrintSolution_loop solution (i + 1) out))
      else Inr out)"
  by pat_completeness auto
termination
proof (relation "measure (\<lambda>(solution, i, out). nat (int (length solution) - i))", goal_cases)
  case 1
  show ?case by simp
next
  case (2 solution i out b k out1 i1 out2)
  from PrintSolution_rows_k [of solution i 0 0 out k out1] 2 have "1 \<le> k" by simp
  with 2 show ?case by simp
qed

declare PrintSolution_loop.simps [simp del]

definition PrintSolution :: "uint64 list \<Rightarrow> error + string" where
  "PrintSolution solution = PrintSolution_loop solution 0 []"

text \<open>
  \<^verbatim>\<open>main\<close> of the later revision from the call of \<^verbatim>\<open>search\<close> on, which starts
  from the goal board parsed there.
\<close>

definition main_revised :: "Move list \<Rightarrow> error + string" where
  "main_revised Moves =
     (let s = initialState;
          (found, s) = search Moves GOAL_BOARD_parsed s
      in PrintSolution (Solution s))"

text \<open>
  The cells with (row + column) mod 3 = 1 and those with (row + column) mod 3 = 2, as
  masks over the 7 x 7 grid; \<open>diagonalParity\<close> says whether a board has as many pegs on
  the first as on the second, modulo 2.
\<close>

definition diagonal1 :: uint64 where
  "diagonal1 = 80421421917330"

definition diagonal2 :: uint64 where
  "diagonal2 = 160842843834660"

definition diagonalParity :: "uint64 \<Rightarrow> bool" where
  "diagonalParity board =
     (odd (pegs (board AND diagonal1)) = odd (pegs (board AND diagonal2)))"

section \<open>Two move tables\<close>

text \<open>
  A permutation of the generated table, given by the positions it takes the entries from,
  and a table of one entry, the jump into the centre from the left.
\<close>

definition shuffleOrder :: "nat list" where
  "shuffleOrder =
    [45, 50, 28, 73, 68, 33, 71, 11, 36, 39, 40, 43, 52, 21, 48, 69,
     1, 24, 29, 5, 65, 13, 75, 67, 26, 49, 60, 51, 63, 4, 12, 34,
     62, 0, 47, 6, 41, 19, 3, 18, 14, 44, 20, 59, 57, 30, 70, 23,
     53, 42, 55, 64, 10, 38, 9, 58, 35, 32, 54, 16, 27, 31, 8, 37,
     2, 22, 66, 25, 7, 15, 17, 56, 72, 46, 74, 61]"

definition shuffledMoves :: "Move list" where
  "shuffledMoves = map (\<lambda>i. generateMoves ! i) shuffleOrder"

definition exhaustedMoves :: "Move list" where
  "exhaustedMoves = [generateMoves ! 17]"

section \<open>The constants and the table, evaluated\<close>

lemma createMoves_append:
  "createMoves bit1 bit2 bit3 moves = moves @ createMoves bit1 bit2 bit3 []"
  by (simp add: createMoves_def Let_def)

lemma foldl_createMoves:
  "foldl (\<lambda>Moves x. createMoves x (x + d) (x + e) Moves) acc xs =
     acc @ concat (map (\<lambda>x. createMoves x (x + d) (x + e) []) xs)"
proof (induction xs arbitrary: acc)
  case Nil
  show ?case by simp
next
  case (Cons x xs)
  show ?case
    by (simp add: Cons.IH) (rule createMoves_append)
qed

lemma generateMoves_concat:
  "generateMoves = concat (map (\<lambda>x. createMoves x (x + 1) (x + 2) []) startsX)
     @ concat (map (\<lambda>y. createMoves y (y + 7) (y + 14) []) startsY)"
  by (simp only: generateMoves_def Let_def foldl_createMoves append_Nil)

lemma generateMoves_table:
  "generateMoves = [
      \<lparr>after = 4, before = 24, all = 28\<rparr>, \<lparr>after = 16, before = 12, all = 28\<rparr>,
      \<lparr>after = 512, before = 3072, all = 3584\<rparr>, \<lparr>after = 2048, before = 1536, all = 3584\<rparr>,
      \<lparr>after = 16384, before = 98304, all = 114688\<rparr>, \<lparr>after = 65536, before = 49152, all = 114688\<rparr>,
      \<lparr>after = 32768, before = 196608, all = 229376\<rparr>, \<lparr>after = 131072, before = 98304, all = 229376\<rparr>,
      \<lparr>after = 65536, before = 393216, all = 458752\<rparr>, \<lparr>after = 262144, before = 196608, all = 458752\<rparr>,
      \<lparr>after = 131072, before = 786432, all = 917504\<rparr>, \<lparr>after = 524288, before = 393216, all = 917504\<rparr>,
      \<lparr>after = 262144, before = 1572864, all = 1835008\<rparr>, \<lparr>after = 1048576, before = 786432, all = 1835008\<rparr>,
      \<lparr>after = 2097152, before = 12582912, all = 14680064\<rparr>, \<lparr>after = 8388608, before = 6291456, all = 14680064\<rparr>,
      \<lparr>after = 4194304, before = 25165824, all = 29360128\<rparr>, \<lparr>after = 16777216, before = 12582912, all = 29360128\<rparr>,
      \<lparr>after = 8388608, before = 50331648, all = 58720256\<rparr>, \<lparr>after = 33554432, before = 25165824, all = 58720256\<rparr>,
      \<lparr>after = 16777216, before = 100663296, all = 117440512\<rparr>, \<lparr>after = 67108864, before = 50331648, all = 117440512\<rparr>,
      \<lparr>after = 33554432, before = 201326592, all = 234881024\<rparr>, \<lparr>after = 134217728, before = 100663296, all = 234881024\<rparr>,
      \<lparr>after = 268435456, before = 1610612736, all = 1879048192\<rparr>, \<lparr>after = 1073741824, before = 805306368, all = 1879048192\<rparr>,
      \<lparr>after = 536870912, before = 3221225472, all = 3758096384\<rparr>, \<lparr>after = 2147483648, before = 1610612736, all = 3758096384\<rparr>,
      \<lparr>after = 1073741824, before = 6442450944, all = 7516192768\<rparr>, \<lparr>after = 4294967296, before = 3221225472, all = 7516192768\<rparr>,
      \<lparr>after = 2147483648, before = 12884901888, all = 15032385536\<rparr>, \<lparr>after = 8589934592, before = 6442450944, all = 15032385536\<rparr>,
      \<lparr>after = 4294967296, before = 25769803776, all = 30064771072\<rparr>, \<lparr>after = 17179869184, before = 12884901888, all = 30064771072\<rparr>,
      \<lparr>after = 137438953472, before = 824633720832, all = 962072674304\<rparr>, \<lparr>after = 549755813888, before = 412316860416, all = 962072674304\<rparr>,
      \<lparr>after = 17592186044416, before = 105553116266496, all = 123145302310912\<rparr>, \<lparr>after = 70368744177664, before = 52776558133248, all = 123145302310912\<rparr>,
      \<lparr>after = 4, before = 66048, all = 66052\<rparr>, \<lparr>after = 65536, before = 516, all = 66052\<rparr>,
      \<lparr>after = 8, before = 132096, all = 132104\<rparr>, \<lparr>after = 131072, before = 1032, all = 132104\<rparr>,
      \<lparr>after = 16, before = 264192, all = 264208\<rparr>, \<lparr>after = 262144, before = 2064, all = 264208\<rparr>,
      \<lparr>after = 512, before = 8454144, all = 8454656\<rparr>, \<lparr>after = 8388608, before = 66048, all = 8454656\<rparr>,
      \<lparr>after = 1024, before = 16908288, all = 16909312\<rparr>, \<lparr>after = 16777216, before = 132096, all = 16909312\<rparr>,
      \<lparr>after = 2048, before = 33816576, all = 33818624\<rparr>, \<lparr>after = 33554432, before = 264192, all = 33818624\<rparr>,
      \<lparr>after = 16384, before = 270532608, all = 270548992\<rparr>, \<lparr>after = 268435456, before = 2113536, all = 270548992\<rparr>,
      \<lparr>after = 32768, before = 541065216, all = 541097984\<rparr>, \<lparr>after = 536870912, before = 4227072, all = 541097984\<rparr>,
      \<lparr>after = 65536, before = 1082130432, all = 1082195968\<rparr>, \<lparr>after = 1073741824, before = 8454144, all = 1082195968\<rparr>,
      \<lparr>after = 131072, before = 2164260864, all = 2164391936\<rparr>, \<lparr>after = 2147483648, before = 16908288, all = 2164391936\<rparr>,
      \<lparr>after = 262144, before = 4328521728, all = 4328783872\<rparr>, \<lparr>after = 4294967296, before = 33816576, all = 4328783872\<rparr>,
      \<lparr>after = 524288, before = 8657043456, all = 8657567744\<rparr>, \<lparr>after = 8589934592, before = 67633152, all = 8657567744\<rparr>,
      \<lparr>after = 1048576, before = 17314086912, all = 17315135488\<rparr>, \<lparr>after = 17179869184, before = 135266304, all = 17315135488\<rparr>,
      \<lparr>after = 8388608, before = 138512695296, all = 138521083904\<rparr>, \<lparr>after = 137438953472, before = 1082130432, all = 138521083904\<rparr>,
      \<lparr>after = 16777216, before = 277025390592, all = 277042167808\<rparr>, \<lparr>after = 274877906944, before = 2164260864, all = 277042167808\<rparr>,
      \<lparr>after = 33554432, before = 554050781184, all = 554084335616\<rparr>, \<lparr>after = 549755813888, before = 4328521728, all = 554084335616\<rparr>,
      \<lparr>after = 1073741824, before = 17729624997888, all = 17730698739712\<rparr>, \<lparr>after = 17592186044416, before = 138512695296, all = 17730698739712\<rparr>,
      \<lparr>after = 2147483648, before = 35459249995776, all = 35461397479424\<rparr>, \<lparr>after = 35184372088832, before = 277025390592, all = 35461397479424\<rparr>,
      \<lparr>after = 4294967296, before = 70918499991552, all = 70922794958848\<rparr>, \<lparr>after = 70368744177664, before = 554050781184, all = 70922794958848\<rparr>]"
  unfolding generateMoves_concat
  by (simp add: startsX_def startsY_def createMoves_def Let_def)

lemma length_generateMoves: "length generateMoves = 76"
  by (simp add: generateMoves_table)

lemma pegs_card: "pegs board = card {i. bit board i}"
proof -
  have "distinct (filter (bit board) [0..<64])"
    by simp
  then have "pegs board = card (set (filter (bit board) [0..<64]))"
    by (simp only: pegs_def distinct_card)
  also have "set (filter (bit board) [0..<64]) = {i. bit board i}"
    by (auto dest: bit_imp_le_length)
  finally show ?thesis .
qed

lemma bits_exp:
  "a < 64 \<Longrightarrow> {i. bit (2 ^ a :: uint64) i} = {a}"
  by (auto simp: bit_exp_iff)

lemma bits_or: "{i. bit (v OR w :: uint64) i} = {i. bit v i} \<union> {i. bit w i}"
  by (auto simp: bit_or_iff)

lemma bits_and: "{i. bit (v AND w :: uint64) i} = {i. bit v i} \<inter> {i. bit w i}"
  by (auto simp: bit_and_iff)

lemma bits_empty_iff: "{i. bit (w :: uint64) i} = {} \<longleftrightarrow> w = 0"
proof
  assume "{i. bit w i} = {}"
  then have "\<not> bit w i" for i by blast
  then show "w = 0" by (simp add: bit_eq_iff)
next
  assume "w = 0"
  then show "{i. bit w i} = {}" by simp
qed

lemma wellFormed_createMoves:
  assumes "bit1 < 64" "bit2 < 64" "bit3 < 64" "bit1 \<noteq> bit2" "bit2 \<noteq> bit3" "bit1 \<noteq> bit3"
  shows "list_all wellFormed (createMoves bit1 bit2 bit3 [])"
proof -
  have disj: "(2 ^ a :: uint64) AND (2 ^ b OR 2 ^ c) = 0"
    if "a \<noteq> b" "a \<noteq> c" "a < 64" "b < 64" "c < 64" for a b c
    unfolding bits_empty_iff [symmetric] using that by (simp add: bits_and bits_or bits_exp)
  show ?thesis
    using assms assms(4-6) [symmetric]
    by (simp add: createMoves_def Let_def wellFormed_def pegs_card bits_or bits_exp disj
        or.assoc or.left_commute or.commute)
qed

lemma wellFormed_table: "list_all wellFormed generateMoves"
proof -
  have "list_all (\<lambda>x. list_all wellFormed (createMoves x (x + 1) (x + 2) [])) startsX"
    unfolding startsX_def by (simp add: wellFormed_createMoves)
  moreover have "list_all (\<lambda>y. list_all wellFormed (createMoves y (y + 7) (y + 14) [])) startsY"
    unfolding startsY_def by (simp add: wellFormed_createMoves)
  ultimately show ?thesis
    unfolding generateMoves_concat by (auto simp: list_all_iff)
qed

lemma onBoard_table:
  "list_all (\<lambda>m. onBoard (after m) \<and> onBoard (before m) \<and> onBoard (all m)) generateMoves"
  unfolding generateMoves_table by (simp add: onBoard_def VALID_BOARD_CELLS_def)

lemma valid_bits: "list_all (\<lambda>i. bit VALID_BOARD_CELLS i = inCross i) [0..<64]"
  by code_simp

lemma goal_bits: "list_all (\<lambda>i. bit GOAL_BOARD i = (i = 24)) [0..<64]"
  by code_simp

lemma bit_word_cases:
  fixes w :: uint64
  assumes "list_all (\<lambda>i. bit w i = P i) [0..<64]" and "\<And>i. 64 \<le> i \<Longrightarrow> \<not> P i"
  shows "bit w i = P i"
proof (cases "i < 64")
  case True
  with assms(1) show ?thesis by (simp add: list_all_iff)
next
  case False
  then have "\<not> bit w i" by (auto dest: bit_imp_le_length)
  with False assms(2) show ?thesis by simp
qed

lemma pegs_VALID: "pegs VALID_BOARD_CELLS = 33"
  by code_simp

lemma pegs_INITIAL: "pegs INITIAL_BOARD = 32"
  by code_simp

lemma pegs_GOAL: "pegs GOAL_BOARD = 1"
  by code_simp

section \<open>Solution paths\<close>

lemma jumps_snoc:
  "jumps Moves (xs @ [a]) \<Longrightarrow> reverseStep Moves b a \<Longrightarrow> jumps Moves (xs @ [a, b])"
  by (induction Moves xs rule: jumps.induct) simp_all

text \<open>
  What a call leaves behind in \<open>Solution\<close>: nothing if it fails; if it succeeds, the
  boards from the one that reached \<open>INITIAL_BOARD\<close> back to its own, each step a reverse
  move of the table.
\<close>

lemma search_loop_path:
  "search_loop Moves ms board s = (found, s') \<Longrightarrow> set ms \<subseteq> set Moves \<Longrightarrow>
     (if found
      then \<exists>path. Solution s' = Solution s @ path @ [board]
             \<and> jumps Moves (INITIAL_BOARD # path @ [board])
      else Solution s' = Solution s)"
proof (induction Moves ms board s arbitrary: found s' rule: search_loop.induct)
  case (1 Moves board s)
  then show ?case by simp
next
  case (2 Moves move rest board s)
  let ?nb = "board XOR all move"
  let ?s1 = "s\<lparr>seenBoards := insert ?nb (seenBoards s)\<rparr>"
  from "2.prems" have move: "move \<in> set Moves" and rest: "set rest \<subseteq> set Moves"
    by auto
  show ?case
  proof (cases "before move AND board = 0 \<and> after move AND board \<noteq> 0")
    case False
    with "2.IH"(4) [OF False _ rest] "2.prems"(1) show ?thesis by simp
  next
    case legal: True
    then have step: "reverseStep Moves board ?nb"
      using move by (auto simp: reverseStep_def list_ex_iff)
    show ?thesis
    proof (cases "?nb \<in> seenBoards s")
      case True
      with "2.IH"(3) [OF legal refl _ _ rest] "2.prems"(1) legal show ?thesis by simp
    next
      case new: False
      show ?thesis
      proof (cases "?nb = INITIAL_BOARD")
        case True
        with "2.prems"(1) legal new step show ?thesis
          by (auto simp: Let_def)
      next
        case notinit: False
        obtain r s2 where rec: "search_loop Moves Moves ?nb ?s1 = (r, s2)"
          by (cases "search_loop Moves Moves ?nb ?s1")
        note ih1 = "2.IH"(1) [OF legal refl new refl notinit rec subset_refl]
        show ?thesis
        proof (cases r)
          case True
          with ih1 obtain path where p: "Solution s2 = Solution s @ path @ [?nb]"
            and j: "jumps Moves (INITIAL_BOARD # path @ [?nb])" by auto
          from True rec "2.prems"(1) legal new notinit
          have res: "found" "s' = s2\<lparr>Solution := Solution s2 @ [board]\<rparr>"
            by (auto simp: Let_def)
          from jumps_snoc [of Moves "INITIAL_BOARD # path" ?nb board] j step
          have "jumps Moves (INITIAL_BOARD # (path @ [?nb]) @ [board])" by simp
          moreover from p res have "Solution s' = Solution s @ (path @ [?nb]) @ [board]"
            by simp
          ultimately show ?thesis using res(1) by metis
        next
          case False
          with ih1 have same: "Solution s2 = Solution s" by simp
          from False rec "2.prems"(1) legal new notinit
          have "search_loop Moves rest board s2 = (found, s')"
            by (auto simp: Let_def)
          from "2.IH"(2) [OF legal refl new refl notinit rec [symmetric] _ this rest] False same
          show ?thesis by (cases found) simp_all
        qed
      qed
    qed
  qed
qed

lemma search_success_path:
  assumes "search Moves GOAL_BOARD initialState = (True, s')"
  shows "\<exists>path. Solution s' = INITIAL_BOARD # path @ [GOAL_BOARD] \<and> jumps Moves (Solution s')"
  using search_loop_path [of Moves Moves GOAL_BOARD initialState True s'] assms
  by (auto simp: search_def initialState_def)

lemma bits_xor: "{i. bit (v XOR w :: uint64) i} = ({i. bit v i} - {i. bit w i}) \<union> ({i. bit w i} - {i. bit v i})"
  by (auto simp: bit_xor_iff)

lemma pegs_all:
  assumes "wellFormed m"
  shows "pegs (all m) = 3"
proof -
  from assms have d: "{i. bit (after m) i} \<inter> {i. bit (before m) i} = {}"
    unfolding wellFormed_def bits_and [symmetric] bits_empty_iff by simp
  from assms have "pegs (all m) = card ({i. bit (after m) i} \<union> {i. bit (before m) i})"
    by (simp add: wellFormed_def pegs_card bits_or)
  also have "\<dots> = card {i. bit (after m) i} + card {i. bit (before m) i}"
    using d by (simp add: card_Un_disjoint)
  also have "\<dots> = 3"
    using assms by (simp add: wellFormed_def pegs_card)
  finally show ?thesis .
qed

lemma reverse_move_bits:
  assumes wf: "wellFormed m"
    and legal: "before m AND board = 0" "after m AND board \<noteq> 0"
  shows "{i. bit (board XOR all m) i} = ({i. bit board i} - {i. bit (after m) i}) \<union> {i. bit (before m) i}"
    and "{i. bit (after m) i} \<subseteq> {i. bit board i}"
    and "{i. bit (before m) i} \<inter> {i. bit board i} = {}"
proof -
  let ?A = "{i. bit (after m) i}" and ?B = "{i. bit (before m) i}" and ?S = "{i. bit board i}"
  from legal(1) show BS: "?B \<inter> ?S = {}"
    unfolding bits_and [symmetric] bits_empty_iff .
  from wf have "card ?A = 1"
    by (simp add: wellFormed_def pegs_card)
  then obtain a where A: "?A = {a}"
    by (auto simp: card_1_singleton_iff)
  from legal(2) have "?A \<inter> ?S \<noteq> {}"
    unfolding bits_and [symmetric] bits_empty_iff .
  with A show AS: "?A \<subseteq> ?S" by auto
  from wf have "all m = after m OR before m"
    by (simp add: wellFormed_def)
  then have "{i. bit (board XOR all m) i} = (?S - (?A \<union> ?B)) \<union> ((?A \<union> ?B) - ?S)"
    by (simp add: bits_xor bits_or)
  with AS BS show "{i. bit (board XOR all m) i} = (?S - ?A) \<union> ?B"
    by auto
qed

lemma reverse_move_pegs:
  assumes wf: "wellFormed m"
    and legal: "before m AND board = 0" "after m AND board \<noteq> 0"
  shows "pegs (board XOR all m) = pegs board + 1"
proof -
  let ?A = "{i. bit (after m) i}" and ?B = "{i. bit (before m) i}" and ?S = "{i. bit board i}"
  note b = reverse_move_bits [OF assms]
  from wf have cA: "card ?A = 1" and cB: "card ?B = 2"
    by (simp_all add: wellFormed_def pegs_card)
  have 1: "card ((?S - ?A) \<union> ?B) = card (?S - ?A) + card ?B"
    using b(3) by (intro card_Un_disjoint) auto
  have 2: "card (?S - ?A) = card ?S - card ?A"
    using b(2) by (intro card_Diff_subset) auto
  have 3: "card ?A \<le> card ?S"
    using b(2) by (intro card_mono) auto
  from 1 2 3 cA cB have "card ((?S - ?A) \<union> ?B) = card ?S + 1"
    by simp
  then show ?thesis
    by (simp add: pegs_card b(1))
qed

lemma reverseStep_pegs:
  assumes "reverseStep Moves board newBoard" and "\<forall>m\<in>set Moves. wellFormed m"
  shows "pegs newBoard = pegs board + 1"
    and "\<exists>m\<in>set Moves. newBoard XOR board = all m"
    and "pegs (newBoard XOR board) = 3"
proof -
  from assms(1) obtain m where m: "m \<in> set Moves" "before m AND board = 0"
      "after m AND board \<noteq> 0" "newBoard = board XOR all m"
    by (auto simp: reverseStep_def list_ex_iff)
  with assms(2) have wf: "wellFormed m" by simp
  from reverse_move_pegs [OF wf m(2,3)] m(4) show "pegs newBoard = pegs board + 1"
    by simp
  have x: "newBoard XOR board = all m"
    unfolding m(4) by (simp add: xor.commute xor.left_commute)
  with m(1) show "\<exists>m\<in>set Moves. newBoard XOR board = all m" by blast
  from x pegs_all [OF wf] show "pegs (newBoard XOR board) = 3" by simp
qed

lemma jumps_nth:
  "jumps Moves xs \<Longrightarrow> i + 1 < length xs \<Longrightarrow> reverseStep Moves (xs ! (i + 1)) (xs ! i)"
proof (induction Moves xs arbitrary: i rule: jumps.induct)
  case (1 Moves prev nxt rest)
  then show ?case by (cases i) simp_all
qed simp_all

lemma jumps_pegs:
  assumes "jumps Moves xs" and "\<forall>m\<in>set Moves. wellFormed m" and "i < length xs"
  shows "pegs (xs ! i) + i = pegs (xs ! 0)"
  using assms(3)
proof (induction i)
  case 0
  show ?case by simp
next
  case (Suc i)
  from jumps_nth [OF assms(1), of i] Suc.prems
  have "reverseStep Moves (xs ! Suc i) (xs ! i)" by simp
  from reverseStep_pegs(1) [OF this assms(2)] Suc show ?case by simp
qed

lemma wellFormed_perm:
  assumes "mset Moves = mset generateMoves"
  shows "\<forall>m\<in>set Moves. wellFormed m"
proof -
  from assms have "set Moves = set generateMoves" by (rule mset_eq_setD)
  with wellFormed_table show ?thesis by (simp add: list_all_iff)
qed

lemma reverse_move_bit:
  assumes "wellFormed m" "before m AND board = 0" "after m AND board \<noteq> 0"
  shows "bit (board XOR all m) i = (bit board i \<and> \<not> bit (after m) i \<or> bit (before m) i)"
    and "bit (after m) i \<Longrightarrow> bit board i"
    and "bit (before m) i \<Longrightarrow> \<not> bit board i"
    and "bit (all m) i = (bit (after m) i \<or> bit (before m) i)"
proof -
  note b = reverse_move_bits [OF assms]
  have "i \<in> {i. bit (board XOR all m) i}
      \<longleftrightarrow> i \<in> ({i. bit board i} - {i. bit (after m) i}) \<union> {i. bit (before m) i}"
    by (simp only: b(1))
  then show "bit (board XOR all m) i = (bit board i \<and> \<not> bit (after m) i \<or> bit (before m) i)"
    by simp
  from b(2) show "bit (after m) i \<Longrightarrow> bit board i" by auto
  from b(3) show "bit (before m) i \<Longrightarrow> \<not> bit board i" by auto
  from assms(1) show "bit (all m) i = (bit (after m) i \<or> bit (before m) i)"
    by (simp add: wellFormed_def bit_or_iff)
qed

lemma reverse_move_words:
  assumes "wellFormed m" "before m AND board = 0" "after m AND board \<noteq> 0"
  shows "board XOR all m = (board AND NOT (after m)) OR before m"
    and "after m AND board = after m"
    and "after m AND (board XOR all m) = 0"
    and "before m AND (board XOR all m) = before m"
    and "(board XOR all m) AND NOT (all m) = board AND NOT (all m)"
proof -
  note b = reverse_move_bit [OF assms]
  show "board XOR all m = (board AND NOT (after m)) OR before m"
    by (rule bit_eqI) (simp add: b(1) bit_or_iff bit_and_iff bit_not_iff)
  show "after m AND board = after m"
    by (rule bit_eqI) (auto simp: bit_and_iff dest: b(2))
  show "after m AND (board XOR all m) = 0"
    by (rule bit_eqI) (auto simp: bit_and_iff b(1) dest: b(2,3))
  show "before m AND (board XOR all m) = before m"
    by (rule bit_eqI) (auto simp: bit_and_iff b(1))
  show "(board XOR all m) AND NOT (all m) = board AND NOT (all m)"
    by (rule bit_eqI) (auto simp: bit_and_iff bit_not_iff b(1,4))
qed

lemma search_loop_seen_mono:
  "seenBoards s \<subseteq> seenBoards (snd (search_loop Moves ms board s))"
  by (rule search_loop_seen_mono_dom [OF search_loop_dom_all])

lemma search_loop_rel_shape:
  assumes "search_loop_rel (Moves', ms', board', s') (Moves, ms, board, s)"
  shows "Moves' = Moves \<and>
    (ms' = Moves \<and> board' \<notin> seenBoards s \<and> seenBoards s' = insert board' (seenBoards s)
     \<or> board' = board \<and> ms \<noteq> [] \<and> ms' = tl ms)"
  using assms by (cases rule: search_loop_rel.cases) auto

lemma onBoard_xor: "onBoard a \<Longrightarrow> onBoard b \<Longrightarrow> onBoard (a XOR b)"
  unfolding onBoard_def by (metis bit.conj_xor_distrib2)

lemma onBoard_not: "onBoard b \<Longrightarrow> b AND NOT VALID_BOARD_CELLS = 0"
  unfolding onBoard_def by (metis and.assoc bit.conj_cancel_right and_zero_eq)

lemma search_loop_onBoard:
  "\<forall>m\<in>set Moves. onBoard (all m) \<Longrightarrow> set ms \<subseteq> set Moves \<Longrightarrow> onBoard board \<Longrightarrow>
     \<forall>b\<in>seenBoards s \<union> set (Solution s). onBoard b \<Longrightarrow>
     \<forall>b\<in>seenBoards (snd (search_loop Moves ms board s))
        \<union> set (Solution (snd (search_loop Moves ms board s))). onBoard b"
proof (induction Moves ms board s rule: search_loop.induct)
  case (1 Moves board s)
  then show ?case by simp
next
  case (2 Moves move rest board s)
  let ?nb = "board XOR all move"
  let ?s1 = "s\<lparr>seenBoards := insert ?nb (seenBoards s)\<rparr>"
  note tab = "2.prems"(1) and board = "2.prems"(3) and inv = "2.prems"(4)
  from "2.prems" have move: "move \<in> set Moves" and rest: "set rest \<subseteq> set Moves"
    by auto
  show ?case
  proof (cases "before move AND board = 0 \<and> after move AND board \<noteq> 0")
    case False
    from "2.IH"(4) [OF False tab rest board inv] False show ?thesis by auto
  next
    case legal: True
    have nb: "onBoard ?nb"
      using board tab move by (simp add: onBoard_xor)
    show ?thesis
    proof (cases "?nb \<in> seenBoards s")
      case True
      with "2.IH"(3) [OF legal refl _ tab rest board inv] legal show ?thesis by simp
    next
      case new: False
      have s1: "\<forall>b\<in>seenBoards ?s1 \<union> set (Solution ?s1). onBoard b"
        using nb inv by simp
      show ?thesis
      proof (cases "?nb = INITIAL_BOARD")
        case True
        with legal new s1 board show ?thesis
          by (auto simp: Let_def)
      next
        case notinit: False
        obtain r s2 where rec: "search_loop Moves Moves ?nb ?s1 = (r, s2)"
          by (cases "search_loop Moves Moves ?nb ?s1")
        from "2.IH"(1) [OF legal refl new refl notinit tab subset_refl nb s1] rec
        have s2: "\<forall>b\<in>seenBoards s2 \<union> set (Solution s2). onBoard b" by simp
        show ?thesis
        proof (cases r)
          case True
          with rec legal new notinit s2 board show ?thesis
            by (auto simp: Let_def)
        next
          case False
          from "2.IH"(2) [OF legal refl new refl notinit rec [symmetric] _ tab rest board s2] False
          have "\<forall>b\<in>seenBoards (snd (search_loop Moves rest board s2))
            \<union> set (Solution (snd (search_loop Moves rest board s2))). onBoard b" by simp
          with rec legal new notinit False show ?thesis
            by (simp add: Let_def)
        qed
      qed
    qed
  qed
qed

section \<open>What a run depends on\<close>

text \<open>
  Of the two globals that \<^verbatim>\<open>search\<close> touches it reads only \<^verbatim>\<open>seenBoards\<close>; to
  \<^verbatim>\<open>Solution\<close> it only appends. So two calls that agree on the visited set agree on
  the boolean, on the visited set they leave and on the boards they append, whatever
  \<open>Solution\<close> held at either call.
\<close>

lemma search_loop_solution_indep:
  "seenBoards s = seenBoards s' \<Longrightarrow>
   fst (search_loop Moves ms board s) = fst (search_loop Moves ms board s')
   \<and> seenBoards (snd (search_loop Moves ms board s)) = seenBoards (snd (search_loop Moves ms board s'))
   \<and> (\<exists>path. Solution (snd (search_loop Moves ms board s)) = Solution s @ path
          \<and> Solution (snd (search_loop Moves ms board s')) = Solution s' @ path)"
proof (induction Moves ms board s arbitrary: s' rule: search_loop.induct)
  case (1 Moves board s)
  then show ?case by simp
next
  case (2 Moves move rest board s)
  let ?nb = "board XOR all move"
  let ?s1 = "s\<lparr>seenBoards := insert ?nb (seenBoards s)\<rparr>"
  let ?s1' = "s'\<lparr>seenBoards := insert ?nb (seenBoards s')\<rparr>"
  note eq = "2.prems"
  show ?case
  proof (cases "before move AND board = 0 \<and> after move AND board \<noteq> 0")
    case False
    with "2.IH"(4) [OF False eq] show ?thesis by auto
  next
    case legal: True
    show ?thesis
    proof (cases "?nb \<in> seenBoards s")
      case True
      with "2.IH"(3) [OF legal refl _ eq] eq legal show ?thesis by simp
    next
      case new: False
      show ?thesis
      proof (cases "?nb = INITIAL_BOARD")
        case True
        with legal new eq show ?thesis by (simp add: Let_def)
      next
        case notinit: False
        obtain r s2 where rec: "search_loop Moves Moves ?nb ?s1 = (r, s2)"
          by (cases "search_loop Moves Moves ?nb ?s1")
        obtain r' s2' where rec': "search_loop Moves Moves ?nb ?s1' = (r', s2')"
          by (cases "search_loop Moves Moves ?nb ?s1'")
        from eq have eq1: "seenBoards ?s1 = seenBoards ?s1'" by simp
        from "2.IH"(1) [OF legal refl new refl notinit eq1] rec rec'
        obtain p where r: "r = r'" and seen2: "seenBoards s2 = seenBoards s2'"
          and p: "Solution s2 = Solution s @ p" "Solution s2' = Solution s' @ p"
          by auto
        show ?thesis
        proof (cases r)
          case True
          with r rec rec' legal new notinit eq seen2 p show ?thesis
            by (simp add: Let_def)
        next
          case False
          then have "r = False" by simp
          from "2.IH"(2) [OF legal refl new refl notinit rec [symmetric] this seen2]
          obtain q where
            "fst (search_loop Moves rest board s2) = fst (search_loop Moves rest board s2')"
            "seenBoards (snd (search_loop Moves rest board s2))
               = seenBoards (snd (search_loop Moves rest board s2'))"
            "Solution (snd (search_loop Moves rest board s2)) = Solution s2 @ q"
            "Solution (snd (search_loop Moves rest board s2')) = Solution s2' @ q"
            by auto
          with False r rec rec' legal new notinit eq p show ?thesis
            by (simp add: Let_def)
        qed
      qed
    qed
  qed
qed

text \<open>
  A call that succeeds has put \<open>INITIAL_BOARD\<close> into the visited set, and no call
  succeeds once it is there: the test \<^verbatim>\<open>!seenBoards[newBoard]\<close> comes before the
  comparison with \<open>INITIAL_BOARD\<close>.
\<close>

lemma search_loop_found_initial:
  "fst (search_loop Moves ms board s) \<Longrightarrow>
   INITIAL_BOARD \<in> seenBoards (snd (search_loop Moves ms board s))"
proof (induction Moves ms board s rule: search_loop.induct)
  case (1 Moves board s)
  then show ?case by simp
next
  case (2 Moves move rest board s)
  let ?nb = "board XOR all move"
  let ?s1 = "s\<lparr>seenBoards := insert ?nb (seenBoards s)\<rparr>"
  show ?case
  proof (cases "before move AND board = 0 \<and> after move AND board \<noteq> 0")
    case False
    with "2.IH"(4) [OF False] "2.prems" show ?thesis by auto
  next
    case legal: True
    show ?thesis
    proof (cases "?nb \<in> seenBoards s")
      case True
      with "2.IH"(3) [OF legal refl] "2.prems" legal show ?thesis by simp
    next
      case new: False
      show ?thesis
      proof (cases "?nb = INITIAL_BOARD")
        case True
        with legal new show ?thesis by (simp add: Let_def)
      next
        case notinit: False
        obtain r s2 where rec: "search_loop Moves Moves ?nb ?s1 = (r, s2)"
          by (cases "search_loop Moves Moves ?nb ?s1")
        show ?thesis
        proof (cases r)
          case True
          with "2.IH"(1) [OF legal refl new refl notinit] rec legal new notinit
          show ?thesis by (simp add: Let_def)
        next
          case False
          then have "r = False" by simp
          from "2.IH"(2) [OF legal refl new refl notinit rec [symmetric] this]
            "2.prems" False rec legal new notinit
          show ?thesis by (simp add: Let_def)
        qed
      qed
    qed
  qed
qed

lemma search_loop_initial_seen:
  "INITIAL_BOARD \<in> seenBoards s \<Longrightarrow> \<not> fst (search_loop Moves ms board s)"
proof (induction Moves ms board s rule: search_loop.induct)
  case (1 Moves board s)
  then show ?case by simp
next
  case (2 Moves move rest board s)
  let ?nb = "board XOR all move"
  let ?s1 = "s\<lparr>seenBoards := insert ?nb (seenBoards s)\<rparr>"
  show ?case
  proof (cases "before move AND board = 0 \<and> after move AND board \<noteq> 0")
    case False
    with "2.IH"(4) [OF False "2.prems"] show ?thesis by auto
  next
    case legal: True
    show ?thesis
    proof (cases "?nb \<in> seenBoards s")
      case True
      with "2.IH"(3) [OF legal refl _ "2.prems"] legal show ?thesis by simp
    next
      case new: False
      with "2.prems" have notinit: "?nb \<noteq> INITIAL_BOARD" by auto
      obtain r s2 where rec: "search_loop Moves Moves ?nb ?s1 = (r, s2)"
        by (cases "search_loop Moves Moves ?nb ?s1")
      from "2.prems" have in1: "INITIAL_BOARD \<in> seenBoards ?s1" by simp
      from "2.IH"(1) [OF legal refl new refl notinit in1] rec have nr: "\<not> r" by simp
      then have "r = False" by simp
      from search_loop_seen_mono [of ?s1 Moves Moves ?nb] rec in1
      have "INITIAL_BOARD \<in> seenBoards s2" by auto
      from "2.IH"(2) [OF legal refl new refl notinit rec [symmetric] \<open>r = False\<close> this]
        nr rec legal new notinit
      show ?thesis by (simp add: Let_def)
    qed
  qed
qed


section \<open>The goal of the later revision\<close>

text \<open>
  Each of the three cells of a move lies on a different one of the three classes of
  diagonals, so a move changes the number of pegs on each class by one, and whether two
  classes hold equally many pegs modulo 2 never changes along a chain of jumps. The
  initial board and the board with one peg in the centre agree in this; the goal board
  that the later revision parses does not, and no search from it reaches the initial board.
\<close>

lemma ParseUint_bounds:
  "cutoff = 9223372036854775808"
  "unat maxVal = 18446744073709551615"
  by (simp_all add: cutoff_def maxVal_def unsigned_minus_1_eq_mask mask_eq_exp_minus_1)

lemma ParseUint2_texts:
  "ParseUint2 VALID_BOARD_CELLS_text = (124141734710812, None)"
  "ParseUint2 INITIAL_BOARD_text = (124141717933596, None)"
  "ParseUint2 GOAL_BOARD_text = (2147483648, None)"
  by (simp_all add: ParseUint2_def VALID_BOARD_CELLS_text_def INITIAL_BOARD_text_def
      GOAL_BOARD_text_def digit_def lower_def Let_def ParseUint_bounds
      word_le_nat_alt word_less_nat_alt)

text \<open>
  The order of the tests shows where a text is wrong in two ways: 65 ones overflow before
  the \<open>2\<close> behind them is read.
\<close>

lemma ParseUint2_errors:
  "ParseUint2 [] = (0, Some ErrSyntax)"
  "ParseUint2 ''0102'' = (0, Some ErrSyntax)"
  "ParseUint2 ''11111111111111111111111111111111111111111111111111111111111111111''
     = (maxVal, Some ErrRange)"
  "ParseUint2 ''111111111111111111111111111111111111111111111111111111111111111112''
     = (maxVal, Some ErrRange)"
  by (simp_all add: ParseUint2_def digit_def lower_def Let_def ParseUint_bounds
      word_le_nat_alt word_less_nat_alt)

lemma parsed_constants:
  "VALID_BOARD_CELLS_parsed = VALID_BOARD_CELLS"
  "INITIAL_BOARD_parsed = INITIAL_BOARD"
  "GOAL_BOARD_parsed = 2147483648"
  by (simp_all add: VALID_BOARD_CELLS_parsed_def INITIAL_BOARD_parsed_def GOAL_BOARD_parsed_def
      ParseUint2_texts VALID_BOARD_CELLS_def INITIAL_BOARD_def)

lemma diagonal_bits:
  "bit diagonal1 i = (i < 49 \<and> (i div 7 + i mod 7) mod 3 = 1)"
  "bit diagonal2 i = (i < 49 \<and> (i div 7 + i mod 7) mod 3 = 2)"
proof -
  have "list_all (\<lambda>i. bit diagonal1 i = (i < 49 \<and> (i div 7 + i mod 7) mod 3 = 1)) [0..<64]"
    by code_simp
  then show "bit diagonal1 i = (i < 49 \<and> (i div 7 + i mod 7) mod 3 = 1)"
    by (rule bit_word_cases) simp
  have "list_all (\<lambda>i. bit diagonal2 i = (i < 49 \<and> (i div 7 + i mod 7) mod 3 = 2)) [0..<64]"
    by code_simp
  then show "bit diagonal2 i = (i < 49 \<and> (i div 7 + i mod 7) mod 3 = 2)"
    by (rule bit_word_cases) simp
qed

lemma pegs_xor_parity: "odd (pegs (x XOR y)) = (odd (pegs x) \<noteq> odd (pegs y))"
proof -
  let ?A = "{i. bit x i}" and ?B = "{i. bit y i}"
  have fin: "finite ?A" "finite ?B" by simp_all
  have "card ((?A - ?B) \<union> (?B - ?A)) = card (?A - ?B) + card (?B - ?A)"
    using fin by (intro card_Un_disjoint) auto
  moreover have "card ?A = card (?A - ?B) + card (?A \<inter> ?B)"
    using fin by (metis card_Diff_subset_Int add.commute card_Int_Diff finite_Int)
  moreover have "card ?B = card (?B - ?A) + card (?A \<inter> ?B)"
    using fin by (metis Int_commute card_Int_Diff add.commute)
  ultimately have "card ((?A - ?B) \<union> (?B - ?A)) + 2 * card (?A \<inter> ?B) = card ?A + card ?B"
    by simp
  moreover have "odd a = (odd b \<noteq> odd c)" if "a + 2 * d = b + c" for a b c d :: nat
    using that by presburger
  ultimately have "odd (card ((?A - ?B) \<union> (?B - ?A))) = (odd (card ?A) \<noteq> odd (card ?B))"
    by blast
  then show ?thesis
    by (simp add: pegs_card bits_xor)
qed

lemma diagonal_createMoves:
  assumes "bit1 < 64" "bit2 < 64" "bit3 < 64" "distinct [bit1, bit2, bit3]"
    and "length (filter (bit d) [bit1, bit2, bit3]) = Suc 0"
  shows "list_all (\<lambda>m. pegs (all m AND d) = Suc 0) (createMoves bit1 bit2 bit3 [])"
proof -
  have "{i. bit ((2 ^ bit1 OR 2 ^ bit2 OR 2 ^ bit3) AND d) i}
      = set (filter (bit d) [bit1, bit2, bit3])"
    using assms(1-3) by (auto simp: bits_and bits_or bits_exp)
  moreover have "card (set (filter (bit d) [bit1, bit2, bit3])) = Suc 0"
    using assms(4,5) by (metis distinct_card distinct_filter)
  ultimately show ?thesis
    by (simp add: createMoves_def Let_def pegs_card)
qed

lemma diagonal_table:
  "list_all (\<lambda>m. pegs (all m AND diagonal1) = Suc 0 \<and> pegs (all m AND diagonal2) = Suc 0)
     generateMoves"
proof -
  have "list_all (\<lambda>x. list_all (\<lambda>m. pegs (all m AND diagonal1) = Suc 0)
      (createMoves x (x + 1) (x + 2) [])) startsX"
    unfolding startsX_def by (simp add: diagonal_createMoves diagonal_bits)
  moreover have "list_all (\<lambda>x. list_all (\<lambda>m. pegs (all m AND diagonal2) = Suc 0)
      (createMoves x (x + 1) (x + 2) [])) startsX"
    unfolding startsX_def by (simp add: diagonal_createMoves diagonal_bits)
  moreover have "list_all (\<lambda>y. list_all (\<lambda>m. pegs (all m AND diagonal1) = Suc 0)
      (createMoves y (y + 7) (y + 14) [])) startsY"
    unfolding startsY_def by (simp add: diagonal_createMoves diagonal_bits)
  moreover have "list_all (\<lambda>y. list_all (\<lambda>m. pegs (all m AND diagonal2) = Suc 0)
      (createMoves y (y + 7) (y + 14) [])) startsY"
    unfolding startsY_def by (simp add: diagonal_createMoves diagonal_bits)
  ultimately show ?thesis
    unfolding generateMoves_concat by (auto simp: list_all_iff)
qed

lemma diagonalParity_xor:
  assumes "pegs (a AND diagonal1) = Suc 0" "pegs (a AND diagonal2) = Suc 0"
  shows "diagonalParity (board XOR a) = diagonalParity board"
proof -
  have "(board XOR a) AND d = (board AND d) XOR (a AND d)" for d
    by (rule bit.conj_xor_distrib2)
  with assms show ?thesis
    by (simp add: diagonalParity_def pegs_xor_parity)
qed

lemma reverseStep_diagonalParity:
  assumes "reverseStep Moves board newBoard" and "set Moves \<subseteq> set generateMoves"
  shows "diagonalParity newBoard = diagonalParity board"
proof -
  from assms(1) obtain m where m: "m \<in> set Moves" "newBoard = board XOR all m"
    by (auto simp: reverseStep_def list_ex_iff)
  with assms(2) diagonal_table
  have "pegs (all m AND diagonal1) = Suc 0" "pegs (all m AND diagonal2) = Suc 0"
    by (auto simp: list_all_iff)
  then show ?thesis
    unfolding m(2) by (rule diagonalParity_xor)
qed

lemma jumps_diagonalParity:
  assumes "jumps Moves xs" and "set Moves \<subseteq> set generateMoves" and "i < length xs"
  shows "diagonalParity (xs ! i) = diagonalParity (xs ! 0)"
  using assms(3)
proof (induction i)
  case 0
  show ?case by simp
next
  case (Suc i)
  from jumps_nth [OF assms(1), of i] Suc.prems
  have "reverseStep Moves (xs ! Suc i) (xs ! i)" by simp
  from reverseStep_diagonalParity [OF this assms(2)] Suc show ?case by simp
qed

lemma search_found_diagonalParity:
  assumes "search Moves board s = (True, s')" and "set Moves \<subseteq> set generateMoves"
  shows "diagonalParity board = diagonalParity INITIAL_BOARD"
proof -
  from search_loop_path [of Moves Moves board s True s'] assms(1)
  obtain path where j: "jumps Moves (INITIAL_BOARD # path @ [board])"
    by (auto simp: search_def)
  from jumps_diagonalParity [OF j assms(2), of "Suc (length path)"]
  show ?thesis by (simp add: nth_append)
qed

lemma diagonalParity_values:
  "diagonalParity INITIAL_BOARD" "diagonalParity GOAL_BOARD" "\<not> diagonalParity GOAL_BOARD_parsed"
proof -
  have "pegs 70525817259024 = 11" "pegs 17871972485124 = 11" "pegs 2147483648 = 1"
    by code_simp+
  moreover have "pegs 0 = 0"
    by (simp add: pegs_card)
  ultimately show "diagonalParity INITIAL_BOARD" "diagonalParity GOAL_BOARD"
      "\<not> diagonalParity GOAL_BOARD_parsed"
    by (simp_all add: diagonalParity_def diagonal1_def diagonal2_def INITIAL_BOARD_def
        GOAL_BOARD_def parsed_constants(3))
qed

lemma revised_search_fails:
  assumes "mset Moves = mset generateMoves"
  shows "fst (search Moves GOAL_BOARD_parsed s) = False"
proof (rule ccontr)
  assume "fst (search Moves GOAL_BOARD_parsed s) \<noteq> False"
  then have "search Moves GOAL_BOARD_parsed s = (True, snd (search Moves GOAL_BOARD_parsed s))"
    by (metis prod.collapse)
  moreover have "set Moves \<subseteq> set generateMoves"
    using mset_eq_setD [OF assms] by simp
  ultimately have "diagonalParity GOAL_BOARD_parsed = diagonalParity INITIAL_BOARD"
    by (rule search_found_diagonalParity)
  with diagonalParity_values show False by simp
qed

section \<open>Printing stays inside the slice\<close>

lemma index_in_range:
  "0 \<le> j \<Longrightarrow> j < int (length xs) \<Longrightarrow> index xs j = Inr (xs ! nat j)"
  by (simp add: index_def)

lemma main_steps_ok:
  "0 \<le> i \<Longrightarrow> 0 \<le> k \<Longrightarrow> k \<le> 16 \<Longrightarrow> i + k \<le> int (length solution) \<Longrightarrow>
   (k < 16 \<longrightarrow> i + k < int (length solution)) \<Longrightarrow>
   \<exists>out'. main_steps solution i m k out = Inr (min 16 (int (length solution) - i), out')"
proof (induction solution i m k out rule: main_steps.induct)
  case (1 solution i m k out)
  note unfold = main_steps.simps [of solution i m k out]
  let ?board = "solution ! nat (i + k)"
  show ?case
  proof (cases "k < 16")
    case False
    then have "main_steps solution i m k out = Inr (k, out)"
      by (simp add: unfold)
    moreover from False "1.prems" have "k = min 16 (int (length solution) - i)"
      by simp
    ultimately show ?thesis by simp
  next
    case True
    with "1.prems" have b: "index solution (i + k) = Inr ?board"
      by (simp add: index_in_range)
    from True b have eq: "main_steps solution i m k out =
        (if i + k = int (length solution) - 1 then Inr (k + 1, out @ printLine ?board m)
         else main_steps solution i m (k + 1) ((out @ printLine ?board m) @ ''   ''))"
      by (simp add: unfold Let_def)
    show ?thesis
    proof (cases "i + k = int (length solution) - 1")
      case last: True
      with True have "k + 1 = min 16 (int (length solution) - i)"
        by simp
      with eq last show ?thesis by simp
    next
      case False
      with "1.prems" True have "i + (k + 1) < int (length solution)" by simp
      with "1.IH" [OF True b refl False] "1.prems" True
      obtain out' where
        "main_steps solution i m (k + 1) ((out @ printLine ?board m) @ ''   '')
           = Inr (min 16 (int (length solution) - i), out')"
        by auto
      with eq False show ?thesis by simp
    qed
  qed
qed

lemma main_rows_ok:
  "0 \<le> i \<Longrightarrow> i < int (length solution) \<Longrightarrow>
   m < 7 \<or> k = min 16 (int (length solution) - i) \<Longrightarrow>
   \<exists>out'. main_rows solution i m k out = Inr (min 16 (int (length solution) - i), out')"
proof (induction solution i m k out rule: main_rows.induct)
  case (1 solution i m k out)
  note unfold = main_rows.simps [of solution i m k out]
  show ?case
  proof (cases "m < 7")
    case False
    then have "main_rows solution i m k out = Inr (k, out)"
      by (simp add: unfold)
    with False "1.prems"(3) show ?thesis by simp
  next
    case True
    let ?k = "min 16 (int (length solution) - i)"
    from main_steps_ok [of i 0 solution m out] "1.prems"
    obtain out1 where s: "main_steps solution i m 0 out = Inr (?k, out1)"
      by auto
    from "1.IH" [OF True s refl "1.prems"(1,2)]
    obtain out' where r: "main_rows solution i (m + 1) ?k (out1 @ [CHR 0x0A]) = Inr (?k, out')"
      by auto
    from True s r show ?thesis
      by (simp add: unfold)
  qed
qed

lemma main_print_ok:
  "0 \<le> i \<Longrightarrow> \<exists>out'. main_print solution i out = Inr out'"
proof (induction solution i out rule: main_print.induct)
  case (1 solution i out)
  note unfold = main_print.simps [of solution i out]
  show ?case
  proof (cases "i < int (length solution)")
    case False
    then show ?thesis by (simp add: unfold)
  next
    case True
    from main_rows_ok [of i solution 0 0 out] True "1.prems"
    obtain k out1 where r: "main_rows solution i 0 0 out = Inr (k, out1)" and k: "1 \<le> k"
      by fastforce
    from k "1.prems" have "0 \<le> i + k - 1 + 1" by simp
    from "1.IH" [OF True r refl refl refl this]
    show ?thesis using True r by (simp add: unfold Let_def)
  qed
qed

lemma PrintSolution_steps_ok:
  "0 \<le> i \<Longrightarrow> 0 \<le> k \<Longrightarrow> k \<le> 16 \<Longrightarrow> i + k \<le> int (length solution) \<Longrightarrow>
   (k < 16 \<longrightarrow> i + k < int (length solution)) \<Longrightarrow>
   \<exists>out'. PrintSolution_steps solution i m k out
     = Inr (min 16 (int (length solution) - i), out')"
proof (induction solution i m k out rule: PrintSolution_steps.induct)
  case (1 solution i m k out)
  note unfold = PrintSolution_steps.simps [of solution i m k out]
  let ?previous = "if i + k - 1 < 0 then 0 else i + k - 1"
  let ?board = "solution ! nat (i + k)"
  let ?prev_board = "solution ! nat ?previous"
  show ?case
  proof (cases "k < 16")
    case False
    then have "PrintSolution_steps solution i m k out = Inr (k, out)"
      by (simp add: unfold)
    moreover from False "1.prems" have "k = min 16 (int (length solution) - i)"
      by simp
    ultimately show ?thesis by simp
  next
    case True
    with "1.prems" have b: "index solution (i + k) = Inr ?board"
      by (simp add: index_in_range)
    from True "1.prems" have "0 \<le> ?previous" "?previous < int (length solution)"
      by auto
    then have p: "index solution ?previous = Inr ?prev_board"
      by (rule index_in_range)
    from True b p have eq: "PrintSolution_steps solution i m k out =
        (if i + k = int (length solution) - 1
         then Inr (k + 1, out @ printLine_prev ?board ?prev_board m)
         else PrintSolution_steps solution i m (k + 1)
                ((out @ printLine_prev ?board ?prev_board m) @ ''   ''))"
      by (simp add: unfold Let_def)
    show ?thesis
    proof (cases "i + k = int (length solution) - 1")
      case last: True
      with True have "k + 1 = min 16 (int (length solution) - i)"
        by simp
      with eq last show ?thesis by simp
    next
      case False
      with "1.prems" True have "i + (k + 1) < int (length solution)" by simp
      with "1.IH" [OF True refl refl b p refl False] "1.prems" True
      obtain out' where
        "PrintSolution_steps solution i m (k + 1)
           ((out @ printLine_prev ?board ?prev_board m) @ ''   '')
           = Inr (min 16 (int (length solution) - i), out')"
        by auto
      with eq False show ?thesis by simp
    qed
  qed
qed

lemma PrintSolution_rows_ok:
  "0 \<le> i \<Longrightarrow> i < int (length solution) \<Longrightarrow>
   m < 7 \<or> k = min 16 (int (length solution) - i) \<Longrightarrow>
   \<exists>out'. PrintSolution_rows solution i m k out
     = Inr (min 16 (int (length solution) - i), out')"
proof (induction solution i m k out rule: PrintSolution_rows.induct)
  case (1 solution i m k out)
  note unfold = PrintSolution_rows.simps [of solution i m k out]
  show ?case
  proof (cases "m < 7")
    case False
    then have "PrintSolution_rows solution i m k out = Inr (k, out)"
      by (simp add: unfold)
    with False "1.prems"(3) show ?thesis by simp
  next
    case True
    let ?k = "min 16 (int (length solution) - i)"
    from PrintSolution_steps_ok [of i 0 solution m out] "1.prems"
    obtain out1 where s: "PrintSolution_steps solution i m 0 out = Inr (?k, out1)"
      by auto
    from "1.IH" [OF True s refl "1.prems"(1,2)]
    obtain out'
      where r: "PrintSolution_rows solution i (m + 1) ?k (out1 @ [CHR 0x0A]) = Inr (?k, out')"
      by auto
    from True s r show ?thesis
      by (simp add: unfold)
  qed
qed

lemma PrintSolution_loop_ok:
  "0 \<le> i \<Longrightarrow> \<exists>out'. PrintSolution_loop solution i out = Inr out'"
proof (induction solution i out rule: PrintSolution_loop.induct)
  case (1 solution i out)
  note unfold = PrintSolution_loop.simps [of solution i out]
  show ?case
  proof (cases "i < int (length solution)")
    case False
    then show ?thesis by (simp add: unfold)
  next
    case True
    from PrintSolution_rows_ok [of i solution 0 0 out] True "1.prems"
    obtain k out1 where r: "PrintSolution_rows solution i 0 0 out = Inr (k, out1)"
      and k: "1 \<le> k"
      by fastforce
    from k "1.prems" have "0 \<le> i + k - 1 + 1" by simp
    from "1.IH" [OF True r refl refl refl this]
    show ?thesis using True r by (simp add: unfold Let_def)
  qed
qed

section \<open>Two concrete runs\<close>

text \<open>
  \<open>shuffledMoves\<close> is a permutation of the table on which the search walks straight from
  \<open>GOAL_BOARD\<close> to \<open>INITIAL_BOARD\<close>; on \<open>exhaustedMoves\<close> it makes one reverse move and
  then finds no other.
\<close>

lemma shuffledMoves_table: "shuffledMoves = [
     \<lparr>after = 8388608, before = 66048, all = 8454656\<rparr>, \<lparr>after = 16384, before = 270532608, all = 270548992\<rparr>,
     \<lparr>after = 1073741824, before = 6442450944, all = 7516192768\<rparr>, \<lparr>after = 35184372088832, before = 277025390592, all = 35461397479424\<rparr>,
     \<lparr>after = 33554432, before = 554050781184, all = 554084335616\<rparr>, \<lparr>after = 17179869184, before = 12884901888, all = 30064771072\<rparr>,
     \<lparr>after = 17592186044416, before = 138512695296, all = 17730698739712\<rparr>, \<lparr>after = 524288, before = 393216, all = 917504\<rparr>,
     \<lparr>after = 17592186044416, before = 105553116266496, all = 123145302310912\<rparr>, \<lparr>after = 65536, before = 516, all = 66052\<rparr>,
     \<lparr>after = 8, before = 132096, all = 132104\<rparr>, \<lparr>after = 262144, before = 2064, all = 264208\<rparr>,
     \<lparr>after = 32768, before = 541065216, all = 541097984\<rparr>, \<lparr>after = 67108864, before = 50331648, all = 117440512\<rparr>,
     \<lparr>after = 2048, before = 33816576, all = 33818624\<rparr>, \<lparr>after = 549755813888, before = 4328521728, all = 554084335616\<rparr>,
     \<lparr>after = 16, before = 12, all = 28\<rparr>, \<lparr>after = 268435456, before = 1610612736, all = 1879048192\<rparr>,
     \<lparr>after = 4294967296, before = 3221225472, all = 7516192768\<rparr>, \<lparr>after = 65536, before = 49152, all = 114688\<rparr>,
     \<lparr>after = 137438953472, before = 1082130432, all = 138521083904\<rparr>, \<lparr>after = 1048576, before = 786432, all = 1835008\<rparr>,
     \<lparr>after = 70368744177664, before = 554050781184, all = 70922794958848\<rparr>, \<lparr>after = 274877906944, before = 2164260864, all = 277042167808\<rparr>,
     \<lparr>after = 536870912, before = 3221225472, all = 3758096384\<rparr>, \<lparr>after = 33554432, before = 264192, all = 33818624\<rparr>,
     \<lparr>after = 524288, before = 8657043456, all = 8657567744\<rparr>, \<lparr>after = 268435456, before = 2113536, all = 270548992\<rparr>,
     \<lparr>after = 17179869184, before = 135266304, all = 17315135488\<rparr>, \<lparr>after = 16384, before = 98304, all = 114688\<rparr>,
     \<lparr>after = 262144, before = 1572864, all = 1835008\<rparr>, \<lparr>after = 137438953472, before = 824633720832, all = 962072674304\<rparr>,
     \<lparr>after = 1048576, before = 17314086912, all = 17315135488\<rparr>, \<lparr>after = 4, before = 24, all = 28\<rparr>,
     \<lparr>after = 16777216, before = 132096, all = 16909312\<rparr>, \<lparr>after = 32768, before = 196608, all = 229376\<rparr>,
     \<lparr>after = 131072, before = 1032, all = 132104\<rparr>, \<lparr>after = 33554432, before = 25165824, all = 58720256\<rparr>,
     \<lparr>after = 2048, before = 1536, all = 3584\<rparr>, \<lparr>after = 8388608, before = 50331648, all = 58720256\<rparr>,
     \<lparr>after = 2097152, before = 12582912, all = 14680064\<rparr>, \<lparr>after = 512, before = 8454144, all = 8454656\<rparr>,
     \<lparr>after = 16777216, before = 100663296, all = 117440512\<rparr>, \<lparr>after = 4294967296, before = 33816576, all = 4328783872\<rparr>,
     \<lparr>after = 2147483648, before = 16908288, all = 2164391936\<rparr>, \<lparr>after = 2147483648, before = 12884901888, all = 15032385536\<rparr>,
     \<lparr>after = 1073741824, before = 17729624997888, all = 17730698739712\<rparr>, \<lparr>after = 134217728, before = 100663296, all = 234881024\<rparr>,
     \<lparr>after = 536870912, before = 4227072, all = 541097984\<rparr>, \<lparr>after = 16, before = 264192, all = 264208\<rparr>,
     \<lparr>after = 1073741824, before = 8454144, all = 1082195968\<rparr>, \<lparr>after = 8388608, before = 138512695296, all = 138521083904\<rparr>,
     \<lparr>after = 131072, before = 786432, all = 917504\<rparr>, \<lparr>after = 4, before = 66048, all = 66052\<rparr>,
     \<lparr>after = 262144, before = 196608, all = 458752\<rparr>, \<lparr>after = 262144, before = 4328521728, all = 4328783872\<rparr>,
     \<lparr>after = 549755813888, before = 412316860416, all = 962072674304\<rparr>, \<lparr>after = 4294967296, before = 25769803776, all = 30064771072\<rparr>,
     \<lparr>after = 65536, before = 1082130432, all = 1082195968\<rparr>, \<lparr>after = 4194304, before = 25165824, all = 29360128\<rparr>,
     \<lparr>after = 2147483648, before = 1610612736, all = 3758096384\<rparr>, \<lparr>after = 8589934592, before = 6442450944, all = 15032385536\<rparr>,
     \<lparr>after = 65536, before = 393216, all = 458752\<rparr>, \<lparr>after = 70368744177664, before = 52776558133248, all = 123145302310912\<rparr>,
     \<lparr>after = 512, before = 3072, all = 3584\<rparr>, \<lparr>after = 33554432, before = 201326592, all = 234881024\<rparr>,
     \<lparr>after = 16777216, before = 277025390592, all = 277042167808\<rparr>, \<lparr>after = 1073741824, before = 805306368, all = 1879048192\<rparr>,
     \<lparr>after = 131072, before = 98304, all = 229376\<rparr>, \<lparr>after = 8388608, before = 6291456, all = 14680064\<rparr>,
     \<lparr>after = 16777216, before = 12582912, all = 29360128\<rparr>, \<lparr>after = 131072, before = 2164260864, all = 2164391936\<rparr>,
     \<lparr>after = 2147483648, before = 35459249995776, all = 35461397479424\<rparr>, \<lparr>after = 1024, before = 16908288, all = 16909312\<rparr>,
     \<lparr>after = 4294967296, before = 70918499991552, all = 70922794958848\<rparr>, \<lparr>after = 8589934592, before = 67633152, all = 8657567744\<rparr>]"
  unfolding shuffledMoves_def shuffleOrder_def generateMoves_table by simp

lemma shuffled_perm: "mset shuffledMoves = mset generateMoves"
proof -
  have "[0..<76] = 0 # [Suc 0..<76]"
    by (rule upt_conv_Cons) simp
  also have "[Suc 0..<76] = Suc 0 # [Suc (Suc 0)..<76]"
    by (rule upt_conv_Cons) simp
  also have "Suc (Suc 0) = 2"
    by simp
  finally have "[0..<76] = 0 # Suc 0 # [2..<76]" .
  then have "sort shuffleOrder = [0..<76]"
    unfolding shuffleOrder_def by (simp add: upt_rec_numeral)
  then have order: "mset shuffleOrder = mset [0..<length generateMoves]"
    by (metis mset_sort length_generateMoves)
  have "mset shuffledMoves = mset (map (\<lambda>i. generateMoves ! i) shuffleOrder)"
    by (simp only: shuffledMoves_def)
  also have "\<dots> = image_mset (\<lambda>i. generateMoves ! i) (mset shuffleOrder)"
    by (simp only: mset_map)
  also have "\<dots> = image_mset (\<lambda>i. generateMoves ! i) (mset [0..<length generateMoves])"
    by (simp only: order)
  also have "\<dots> = mset (map (\<lambda>i. generateMoves ! i) [0..<length generateMoves])"
    by (simp only: mset_map)
  also have "map (\<lambda>i. generateMoves ! i) [0..<length generateMoves] = generateMoves"
    by (rule map_nth)
  finally show ?thesis .
qed

lemma search_loop_restart:
  "search_loop shuffledMoves shuffledMoves board s = search_loop shuffledMoves [
     \<lparr>after = 8388608, before = 66048, all = 8454656\<rparr>, \<lparr>after = 16384, before = 270532608, all = 270548992\<rparr>,
     \<lparr>after = 1073741824, before = 6442450944, all = 7516192768\<rparr>, \<lparr>after = 35184372088832, before = 277025390592, all = 35461397479424\<rparr>,
     \<lparr>after = 33554432, before = 554050781184, all = 554084335616\<rparr>, \<lparr>after = 17179869184, before = 12884901888, all = 30064771072\<rparr>,
     \<lparr>after = 17592186044416, before = 138512695296, all = 17730698739712\<rparr>, \<lparr>after = 524288, before = 393216, all = 917504\<rparr>,
     \<lparr>after = 17592186044416, before = 105553116266496, all = 123145302310912\<rparr>, \<lparr>after = 65536, before = 516, all = 66052\<rparr>,
     \<lparr>after = 8, before = 132096, all = 132104\<rparr>, \<lparr>after = 262144, before = 2064, all = 264208\<rparr>,
     \<lparr>after = 32768, before = 541065216, all = 541097984\<rparr>, \<lparr>after = 67108864, before = 50331648, all = 117440512\<rparr>,
     \<lparr>after = 2048, before = 33816576, all = 33818624\<rparr>, \<lparr>after = 549755813888, before = 4328521728, all = 554084335616\<rparr>,
     \<lparr>after = 16, before = 12, all = 28\<rparr>, \<lparr>after = 268435456, before = 1610612736, all = 1879048192\<rparr>,
     \<lparr>after = 4294967296, before = 3221225472, all = 7516192768\<rparr>, \<lparr>after = 65536, before = 49152, all = 114688\<rparr>,
     \<lparr>after = 137438953472, before = 1082130432, all = 138521083904\<rparr>, \<lparr>after = 1048576, before = 786432, all = 1835008\<rparr>,
     \<lparr>after = 70368744177664, before = 554050781184, all = 70922794958848\<rparr>, \<lparr>after = 274877906944, before = 2164260864, all = 277042167808\<rparr>,
     \<lparr>after = 536870912, before = 3221225472, all = 3758096384\<rparr>, \<lparr>after = 33554432, before = 264192, all = 33818624\<rparr>,
     \<lparr>after = 524288, before = 8657043456, all = 8657567744\<rparr>, \<lparr>after = 268435456, before = 2113536, all = 270548992\<rparr>,
     \<lparr>after = 17179869184, before = 135266304, all = 17315135488\<rparr>, \<lparr>after = 16384, before = 98304, all = 114688\<rparr>,
     \<lparr>after = 262144, before = 1572864, all = 1835008\<rparr>, \<lparr>after = 137438953472, before = 824633720832, all = 962072674304\<rparr>,
     \<lparr>after = 1048576, before = 17314086912, all = 17315135488\<rparr>, \<lparr>after = 4, before = 24, all = 28\<rparr>,
     \<lparr>after = 16777216, before = 132096, all = 16909312\<rparr>, \<lparr>after = 32768, before = 196608, all = 229376\<rparr>,
     \<lparr>after = 131072, before = 1032, all = 132104\<rparr>, \<lparr>after = 33554432, before = 25165824, all = 58720256\<rparr>,
     \<lparr>after = 2048, before = 1536, all = 3584\<rparr>, \<lparr>after = 8388608, before = 50331648, all = 58720256\<rparr>,
     \<lparr>after = 2097152, before = 12582912, all = 14680064\<rparr>, \<lparr>after = 512, before = 8454144, all = 8454656\<rparr>,
     \<lparr>after = 16777216, before = 100663296, all = 117440512\<rparr>, \<lparr>after = 4294967296, before = 33816576, all = 4328783872\<rparr>,
     \<lparr>after = 2147483648, before = 16908288, all = 2164391936\<rparr>, \<lparr>after = 2147483648, before = 12884901888, all = 15032385536\<rparr>,
     \<lparr>after = 1073741824, before = 17729624997888, all = 17730698739712\<rparr>, \<lparr>after = 134217728, before = 100663296, all = 234881024\<rparr>,
     \<lparr>after = 536870912, before = 4227072, all = 541097984\<rparr>, \<lparr>after = 16, before = 264192, all = 264208\<rparr>,
     \<lparr>after = 1073741824, before = 8454144, all = 1082195968\<rparr>, \<lparr>after = 8388608, before = 138512695296, all = 138521083904\<rparr>,
     \<lparr>after = 131072, before = 786432, all = 917504\<rparr>, \<lparr>after = 4, before = 66048, all = 66052\<rparr>,
     \<lparr>after = 262144, before = 196608, all = 458752\<rparr>, \<lparr>after = 262144, before = 4328521728, all = 4328783872\<rparr>,
     \<lparr>after = 549755813888, before = 412316860416, all = 962072674304\<rparr>, \<lparr>after = 4294967296, before = 25769803776, all = 30064771072\<rparr>,
     \<lparr>after = 65536, before = 1082130432, all = 1082195968\<rparr>, \<lparr>after = 4194304, before = 25165824, all = 29360128\<rparr>,
     \<lparr>after = 2147483648, before = 1610612736, all = 3758096384\<rparr>, \<lparr>after = 8589934592, before = 6442450944, all = 15032385536\<rparr>,
     \<lparr>after = 65536, before = 393216, all = 458752\<rparr>, \<lparr>after = 70368744177664, before = 52776558133248, all = 123145302310912\<rparr>,
     \<lparr>after = 512, before = 3072, all = 3584\<rparr>, \<lparr>after = 33554432, before = 201326592, all = 234881024\<rparr>,
     \<lparr>after = 16777216, before = 277025390592, all = 277042167808\<rparr>, \<lparr>after = 1073741824, before = 805306368, all = 1879048192\<rparr>,
     \<lparr>after = 131072, before = 98304, all = 229376\<rparr>, \<lparr>after = 8388608, before = 6291456, all = 14680064\<rparr>,
     \<lparr>after = 16777216, before = 12582912, all = 29360128\<rparr>, \<lparr>after = 131072, before = 2164260864, all = 2164391936\<rparr>,
     \<lparr>after = 2147483648, before = 35459249995776, all = 35461397479424\<rparr>, \<lparr>after = 1024, before = 16908288, all = 16909312\<rparr>,
     \<lparr>after = 4294967296, before = 70918499991552, all = 70922794958848\<rparr>, \<lparr>after = 8589934592, before = 67633152, all = 8657567744\<rparr>] board s"
  using shuffledMoves_table by simp

lemma search_loop_skip_before:
  "before move AND board \<noteq> 0 \<Longrightarrow>
   search_loop Moves (move # rest) board s = search_loop Moves rest board s"
  by simp

lemma search_loop_skip_after:
  "after move AND board = 0 \<Longrightarrow>
   search_loop Moves (move # rest) board s = search_loop Moves rest board s"
  by simp

lemma search_loop_take:
  "before move AND board = 0 \<Longrightarrow> after move AND board \<noteq> 0 \<Longrightarrow>
   search_loop Moves (move # rest) board s =
     (let newBoard = board XOR all move in
      if newBoard \<notin> seenBoards s then
        (let s1 = s\<lparr>seenBoards := insert newBoard (seenBoards s)\<rparr> in
         if newBoard = INITIAL_BOARD then (True, s1\<lparr>Solution := Solution s1 @ [board]\<rparr>)
         else (case search_loop Moves Moves newBoard s1 of
                 (True, s2) \<Rightarrow> (True, s2\<lparr>Solution := Solution s2 @ [board]\<rparr>)
               | (False, s2) \<Rightarrow> search_loop Moves rest board s2))
      else search_loop Moves rest board s)"
  by simp

lemma shuffled_search:
  "fst (search shuffledMoves GOAL_BOARD initialState) = True \<and>
   Solution (snd (search shuffledMoves GOAL_BOARD initialState)) =
     [124141717933596, 124141634047516, 123587616820764, 123725055774236,
      123861412597276, 106132861341212, 106132869663772, 106132869680156,
      106132861226524, 106132320194076, 106132049677852, 106132049694236,
      106132058016796, 106268414839836, 18307484617756, 578933361692,
      578950138908, 578983429148, 578982118428, 561669080092,
      553012560924, 554086302748, 554052488220, 554052748300,
      35521548, 1707020, 396300, 396304,
      527376, 787456, 132096, 16777216]"
  by (simp add: search_def GOAL_BOARD_def initialState_def INITIAL_BOARD_def Let_def
      search_loop_restart search_loop_skip_before search_loop_skip_after search_loop_take
      del: search_loop.simps)

lemma shuffled_found:
  "search shuffledMoves GOAL_BOARD initialState =
     (True, snd (search shuffledMoves GOAL_BOARD initialState))"
  by (cases "search shuffledMoves GOAL_BOARD initialState") (use shuffled_search in auto)

lemma exhaustedMoves_table:
  "exhaustedMoves = [\<lparr>after = 16777216, before = 12582912, all = 29360128\<rparr>]"
  by (simp add: exhaustedMoves_def generateMoves_table)

lemma exhaustedMoves_mem: "generateMoves ! 17 \<in> set generateMoves"
  by (rule nth_mem) (simp add: length_generateMoves)

lemma exhausted_search:
  "search exhaustedMoves GOAL_BOARD initialState =
     (False, \<lparr>seenBoards = {12582912}, Solution = [INITIAL_BOARD]\<rparr>)"
  by (simp add: search_def exhaustedMoves_def generateMoves_table GOAL_BOARD_def initialState_def
      INITIAL_BOARD_def Let_def)

lemma print_initial:
  "main_print [INITIAL_BOARD] 0 [] =
     Inr (concat (map (\<lambda>m. printLine INITIAL_BOARD m @ [CHR 0x0A]) [0, 1, 2, 3, 4, 5, 6])
          @ ''-------------'' @ [CHR 0x0A])"
  by (simp add: main_print.simps main_rows.simps main_steps.simps index_def Let_def
      eval_nat_numeral)

lemma revised_main_exhausted:
  "fst (search generateMoves GOAL_BOARD_parsed initialState) = False"
  "main_revised generateMoves = PrintSolution [INITIAL_BOARD]"
proof -
  show failed: "fst (search generateMoves GOAL_BOARD_parsed initialState) = False"
    by (rule revised_search_fails) simp
  obtain s' where s': "search generateMoves GOAL_BOARD_parsed initialState = (False, s')"
    using failed by (cases "search generateMoves GOAL_BOARD_parsed initialState") simp
  from search_loop_path [of generateMoves generateMoves GOAL_BOARD_parsed initialState False s']
    s'
  have "Solution s' = [INITIAL_BOARD]"
    by (simp add: search_def initialState_def)
  with s' show "main_revised generateMoves = PrintSolution [INITIAL_BOARD]"
    by (simp add: main_revised_def)
qed

lemma PrintSolution_initial:
  "PrintSolution [INITIAL_BOARD] =
     Inr (concat (map (\<lambda>m. printLine_prev INITIAL_BOARD INITIAL_BOARD m @ [CHR 0x0A])
            [0, 1, 2, 3, 4, 5, 6])
          @ ''-------------'' @ [CHR 0x0A])"
  by (simp add: PrintSolution_def PrintSolution_loop.simps PrintSolution_rows.simps
      PrintSolution_steps.simps index_def Let_def eval_nat_numeral)

section \<open>Properties of the solver\<close>

text \<open>
  The literals of \<^verbatim>\<open>solitaire.go\<close> encode the standard cross board under bit index =
  row * 7 + col: \<open>VALID_BOARD_CELLS\<close> has exactly the bits of the cross set (33 of them),
  \<open>GOAL_BOARD\<close> has exactly the centre bit 24 set, and \<open>INITIAL_BOARD\<close> is
  \<open>VALID_BOARD_CELLS\<close> with the centre bit cleared.
\<close>

theorem board_constants:
  "(\<forall>i. bit VALID_BOARD_CELLS i = inCross i) \<and> pegs VALID_BOARD_CELLS = 33
   \<and> (\<forall>i. bit GOAL_BOARD i = (i = 24)) \<and> GOAL_BOARD = push_bit (3 * 7 + 3) 1
   \<and> INITIAL_BOARD = VALID_BOARD_CELLS AND NOT GOAL_BOARD
   \<and> (\<forall>i. bit INITIAL_BOARD i = (inCross i \<and> i \<noteq> 24)) \<and> pegs INITIAL_BOARD = 32"
proof -
  have v: "bit VALID_BOARD_CELLS i = inCross i" for i
    by (rule bit_word_cases [OF valid_bits]) (simp add: inCross_def)
  have g: "bit GOAL_BOARD i = (i = 24)" for i
    by (rule bit_word_cases [OF goal_bits]) simp
  have i: "INITIAL_BOARD = VALID_BOARD_CELLS AND NOT GOAL_BOARD"
    by (simp add: INITIAL_BOARD_def VALID_BOARD_CELLS_def GOAL_BOARD_def)
  have "bit INITIAL_BOARD i = (inCross i \<and> i \<noteq> 24)" for i
    unfolding i by (simp add: bit_and_iff bit_not_iff v g) (auto simp: inCross_def)
  moreover have "GOAL_BOARD = push_bit (3 * 7 + 3) 1"
    by (simp add: GOAL_BOARD_def)
  ultimately show ?thesis
    using v g i pegs_VALID pegs_INITIAL by blast
qed

text \<open>
  C5. Move generation appends two records per starting triple, for 19 horizontal triples
  \<open>(x, x + 1, x + 2)\<close> and 19 vertical triples \<open>(y, y + 7, y + 14)\<close>; the table has
  exactly 76 entries, and in every entry \<open>after\<close> has one bit set, \<open>before\<close> has two
  bits set, the two are disjoint, and \<open>all\<close> is their union.
\<close>

theorem move_generation:
  "generateMoves = concat (map (\<lambda>x. createMoves x (x + 1) (x + 2) []) startsX)
     @ concat (map (\<lambda>y. createMoves y (y + 7) (y + 14) []) startsY)
   \<and> length startsX = 19 \<and> length startsY = 19
   \<and> length (createMoves bit1 bit2 bit3 moves) = length moves + 2
   \<and> length generateMoves = 76
   \<and> list_all (\<lambda>m. pegs (after m) = 1 \<and> pegs (before m) = 2 \<and> after m AND before m = 0
        \<and> all m = after m OR before m) generateMoves"
proof -
  have "length (createMoves bit1 bit2 bit3 moves) = length moves + 2"
    by (simp add: createMoves_def Let_def)
  moreover have "length startsX = 19" "length startsY = 19"
    by (simp_all add: startsX_def startsY_def)
  moreover have "list_all (\<lambda>m. pegs (after m) = 1 \<and> pegs (before m) = 2
      \<and> after m AND before m = 0 \<and> all m = after m OR before m) generateMoves"
    using wellFormed_table by (simp add: wellFormed_def [abs_def])
  ultimately show ?thesis
    using generateMoves_concat length_generateMoves by blast
qed

text \<open>
  C6. The three board constants are to encode the standard cross board, \<open>GOAL_BOARD\<close>
  being the single centre bit 24. The literals of \<^verbatim>\<open>solitaire.go\<close> do
  (\<open>board_constants\<close>). The later revision misses it for its goal board: the binary text
  it parses has its one \<open>1\<close> on the third of the seven rows instead of the fourth, which
  is bit 31, row 4 and column 3, against the comment on it, "goal board (one marble in
  center)". Its other two constants parse to the literals of \<^verbatim>\<open>solitaire.go\<close>.
\<close>

theorem revised_goal_board:
  "ParseUint2 GOAL_BOARD_text = (push_bit (4 * 7 + 3) 1, None)
   \<and> GOAL_BOARD_parsed = 2147483648
   \<and> GOAL_BOARD_parsed \<noteq> GOAL_BOARD
   \<and> (\<forall>i. bit GOAL_BOARD_parsed i = (i = 31))
   \<and> \<not> bit GOAL_BOARD_parsed (3 * 7 + 3)
   \<and> VALID_BOARD_CELLS_parsed = VALID_BOARD_CELLS
   \<and> INITIAL_BOARD_parsed = INITIAL_BOARD"
proof -
  have "ParseUint2 GOAL_BOARD_text = (push_bit (4 * 7 + 3) 1, None)"
    by (simp add: ParseUint2_texts)
  moreover have "(2147483648 :: uint64) = 2 ^ 31"
    by simp
  then have "bit GOAL_BOARD_parsed i = (i = 31)" for i
    by (simp only: parsed_constants bit_exp_iff) auto
  moreover have "GOAL_BOARD_parsed \<noteq> GOAL_BOARD"
    by (simp add: parsed_constants GOAL_BOARD_def)
  ultimately show ?thesis
    by (simp add: parsed_constants)
qed

text \<open>
  C1. Whenever the search from \<open>GOAL_BOARD\<close> succeeds, on any permutation of the
  generated table and from the state \<^verbatim>\<open>main\<close> sets up, \<open>Solution\<close> begins with
  \<open>INITIAL_BOARD\<close>, ends with \<open>GOAL_BOARD\<close>, has exactly 32 entries, and the number of
  pegs drops by exactly one from each entry to the next, from 32 down to 1.
\<close>

theorem solution_path:
  assumes perm: "mset Moves = mset generateMoves"
    and found: "search Moves GOAL_BOARD initialState = (True, s')"
  shows "hd (Solution s') = INITIAL_BOARD \<and> last (Solution s') = GOAL_BOARD
    \<and> length (Solution s') = 32
    \<and> (\<forall>i. i + 1 < length (Solution s') \<longrightarrow>
          pegs (Solution s' ! (i + 1)) + 1 = pegs (Solution s' ! i))
    \<and> (\<forall>i < length (Solution s'). pegs (Solution s' ! i) = 32 - i)
    \<and> pegs INITIAL_BOARD = 32 \<and> pegs GOAL_BOARD = 1"
proof -
  from search_success_path [OF found] obtain path
    where sol: "Solution s' = INITIAL_BOARD # path @ [GOAL_BOARD]"
      and j: "jumps Moves (Solution s')" by blast
  note wf = wellFormed_perm [OF perm]
  have count: "pegs (Solution s' ! i) + i = 32" if "i < length (Solution s')" for i
    using jumps_pegs [OF j wf that] by (simp add: sol pegs_INITIAL)
  have "Solution s' ! (length (Solution s') - 1) = GOAL_BOARD"
    unfolding sol by (simp add: nth_append)
  with count [of "length (Solution s') - 1"] have len: "length (Solution s') = 32"
    by (simp add: sol pegs_GOAL)
  have "pegs (Solution s' ! (i + 1)) + 1 = pegs (Solution s' ! i)"
    if "i + 1 < length (Solution s')" for i
    using count [of i] count [of "i + 1"] that by simp
  moreover have "pegs (Solution s' ! i) = 32 - i" if "i < length (Solution s')" for i
    using count [OF that] by simp
  ultimately show ?thesis
    using len pegs_INITIAL pegs_GOAL by (simp add: sol)
qed

theorem solution_path_witness:
  "mset shuffledMoves = mset generateMoves
   \<and> search shuffledMoves GOAL_BOARD initialState =
       (True, snd (search shuffledMoves GOAL_BOARD initialState))
   \<and> hd (Solution (snd (search shuffledMoves GOAL_BOARD initialState))) = INITIAL_BOARD
   \<and> last (Solution (snd (search shuffledMoves GOAL_BOARD initialState))) = GOAL_BOARD
   \<and> length (Solution (snd (search shuffledMoves GOAL_BOARD initialState))) = 32
   \<and> pegs (Solution (snd (search shuffledMoves GOAL_BOARD initialState)) ! (0 + 1)) + 1
       = pegs (Solution (snd (search shuffledMoves GOAL_BOARD initialState)) ! 0)
   \<and> pegs (Solution (snd (search shuffledMoves GOAL_BOARD initialState)) ! 31) = 32 - 31"
proof -
  let ?s = "snd (search shuffledMoves GOAL_BOARD initialState)"
  note r = solution_path [OF shuffled_perm shuffled_found]
  from r have ends: "hd (Solution ?s) = INITIAL_BOARD" "last (Solution ?s) = GOAL_BOARD"
    and len: "length (Solution ?s) = 32"
    by blast+
  from r have step: "\<And>i. i + 1 < length (Solution ?s) \<Longrightarrow>
      pegs (Solution ?s ! (i + 1)) + 1 = pegs (Solution ?s ! i)"
    and count: "\<And>i. i < length (Solution ?s) \<Longrightarrow> pegs (Solution ?s ! i) = 32 - i"
    by blast+
  from len have "0 + 1 < length (Solution ?s)" "31 < length (Solution ?s)"
    by simp_all
  from step [OF this(1)] count [OF this(2)] ends len shuffled_perm shuffled_found
  show ?thesis by blast
qed

text \<open>
  C2. In the \<open>Solution\<close> of a successful search, every two consecutive entries differ by
  the \<open>all\<close> mask of an entry of the generated table, that is in exactly three bit
  positions.
\<close>

theorem solution_jumps:
  assumes perm: "mset Moves = mset generateMoves"
    and found: "search Moves GOAL_BOARD initialState = (True, s')"
    and pair: "i + 1 < length (Solution s')"
  shows "(\<exists>m\<in>set generateMoves. Solution s' ! i XOR Solution s' ! (i + 1) = all m)
    \<and> pegs (Solution s' ! i XOR Solution s' ! (i + 1)) = 3"
proof -
  from search_success_path [OF found] have j: "jumps Moves (Solution s')" by blast
  note wf = wellFormed_perm [OF perm]
  from perm have "set Moves = set generateMoves" by (rule mset_eq_setD)
  with reverseStep_pegs(2,3) [OF jumps_nth [OF j pair] wf] show ?thesis by simp
qed

theorem solution_jumps_witness:
  "mset shuffledMoves = mset generateMoves
   \<and> search shuffledMoves GOAL_BOARD initialState =
       (True, snd (search shuffledMoves GOAL_BOARD initialState))
   \<and> 0 + 1 < length (Solution (snd (search shuffledMoves GOAL_BOARD initialState)))
   \<and> pegs (Solution (snd (search shuffledMoves GOAL_BOARD initialState)) ! 0
        XOR Solution (snd (search shuffledMoves GOAL_BOARD initialState)) ! (0 + 1)) = 3"
proof -
  let ?s = "snd (search shuffledMoves GOAL_BOARD initialState)"
  have pair: "0 + 1 < length (Solution ?s)"
    using shuffled_search by simp
  from solution_jumps [OF shuffled_perm shuffled_found pair] pair shuffled_perm shuffled_found
  show ?thesis by blast
qed

text \<open>
  C3. For every board and every move of the table that \<^verbatim>\<open>search\<close> comes to in its
  loop: the move is applied if and only if \<open>before AND board = 0\<close> and
  \<open>after AND board \<noteq> 0\<close>. If the test fails, the call goes on with the next move and
  nothing else happens. If it passes, the successor the call works with is
  \<open>board XOR all\<close>: a successor seen before is dropped; a new one is put into the visited
  set and then either is \<open>INITIAL_BOARD\<close>, and the call returns true with \<open>board\<close>
  appended, or is searched from in its turn. Under the test that successor is \<open>board\<close>
  with the one bit of \<open>after\<close> (set before) cleared, the two bits of \<open>before\<close> (clear
  before) set and every other cell as it was: three cells toggled. And the test is what
  decides: with no further move to try, a successor not seen before is in the visited set
  after the call exactly when the test passes.
\<close>

theorem reverse_move_applied:
  assumes "move \<in> set generateMoves"
  shows "search_loop Moves (move # rest) board s =
     (if before move AND board = 0 \<and> after move AND board \<noteq> 0 then
        (let newBoard = board XOR all move in
         if newBoard \<in> seenBoards s then search_loop Moves rest board s
         else if newBoard = INITIAL_BOARD then
           (True, s\<lparr>seenBoards := insert newBoard (seenBoards s),
                    Solution := Solution s @ [board]\<rparr>)
         else
           (case search_loop Moves Moves newBoard
                   (s\<lparr>seenBoards := insert newBoard (seenBoards s)\<rparr>) of
              (True, s2) \<Rightarrow> (True, s2\<lparr>Solution := Solution s2 @ [board]\<rparr>)
            | (False, s2) \<Rightarrow> search_loop Moves rest board s2))
      else search_loop Moves rest board s)
   \<and> (before move AND board = 0 \<and> after move AND board \<noteq> 0 \<longrightarrow>
        (let newBoard = board XOR all move in
         newBoard = (board AND NOT (after move)) OR before move
         \<and> after move AND board = after move \<and> after move AND newBoard = 0
         \<and> before move AND newBoard = before move
         \<and> newBoard AND NOT (all move) = board AND NOT (all move)
         \<and> pegs (after move) = 1 \<and> pegs (before move) = 2 \<and> pegs (newBoard XOR board) = 3))
   \<and> (board XOR all move \<notin> seenBoards s \<longrightarrow>
        (board XOR all move \<in> seenBoards (snd (search_loop Moves [move] board s))
         \<longleftrightarrow> before move AND board = 0 \<and> after move AND board \<noteq> 0))"
proof (intro conjI impI)
  show "search_loop Moves (move # rest) board s =
     (if before move AND board = 0 \<and> after move AND board \<noteq> 0 then
        (let newBoard = board XOR all move in
         if newBoard \<in> seenBoards s then search_loop Moves rest board s
         else if newBoard = INITIAL_BOARD then
           (True, s\<lparr>seenBoards := insert newBoard (seenBoards s),
                    Solution := Solution s @ [board]\<rparr>)
         else
           (case search_loop Moves Moves newBoard
                   (s\<lparr>seenBoards := insert newBoard (seenBoards s)\<rparr>) of
              (True, s2) \<Rightarrow> (True, s2\<lparr>Solution := Solution s2 @ [board]\<rparr>)
            | (False, s2) \<Rightarrow> search_loop Moves rest board s2))
      else search_loop Moves rest board s)"
    by (simp add: Let_def)
next
  assume legal: "before move AND board = 0 \<and> after move AND board \<noteq> 0"
  from assms wellFormed_table have wf: "wellFormed move"
    by (simp add: list_all_iff)
  from legal have l: "before move AND board = 0" "after move AND board \<noteq> 0"
    by simp_all
  note w = reverse_move_words [OF wf l]
  have x: "(board XOR all move) XOR board = all move"
    by (simp add: xor.commute xor.left_commute)
  from wf have "pegs (after move) = 1" "pegs (before move) = 2"
    by (simp_all add: wellFormed_def)
  with w x pegs_all [OF wf]
  show "let newBoard = board XOR all move in
         newBoard = (board AND NOT (after move)) OR before move
         \<and> after move AND board = after move \<and> after move AND newBoard = 0
         \<and> before move AND newBoard = before move
         \<and> newBoard AND NOT (all move) = board AND NOT (all move)
         \<and> pegs (after move) = 1 \<and> pegs (before move) = 2 \<and> pegs (newBoard XOR board) = 3"
    by (simp add: Let_def)
next
  let ?nb = "board XOR all move"
  let ?s1 = "s\<lparr>seenBoards := insert ?nb (seenBoards s)\<rparr>"
  assume new: "?nb \<notin> seenBoards s"
  show "?nb \<in> seenBoards (snd (search_loop Moves [move] board s))
         \<longleftrightarrow> before move AND board = 0 \<and> after move AND board \<noteq> 0"
  proof (cases "before move AND board = 0 \<and> after move AND board \<noteq> 0")
    case False
    then have "search_loop Moves [move] board s = (False, s)" by auto
    with new False show ?thesis by simp
  next
    case legal: True
    have "?nb \<in> seenBoards (snd (search_loop Moves [move] board s))"
    proof (cases "?nb = INITIAL_BOARD")
      case True
      with legal new show ?thesis by (simp add: Let_def)
    next
      case False
      obtain r s2 where rec: "search_loop Moves Moves ?nb ?s1 = (r, s2)"
        by (cases "search_loop Moves Moves ?nb ?s1")
      from search_loop_seen_mono [of ?s1 Moves Moves ?nb] rec
      have "?nb \<in> seenBoards s2" by simp
      with rec False legal new show ?thesis by (cases r) (simp_all add: Let_def)
    qed
    with legal show ?thesis by simp
  qed
qed

text \<open>
  The move that jumps into the centre from the left, on the board one jump away from
  \<open>INITIAL_BOARD\<close>: the test passes, the successor is \<open>INITIAL_BOARD\<close>, new, and the call
  returns true with the visited set and \<open>Solution\<close> the statement gives. On
  \<open>INITIAL_BOARD\<close> itself the test fails and the call goes on to the end of the loop.
\<close>

theorem reverse_move_applied_witness:
  "generateMoves ! 17 \<in> set generateMoves
   \<and> before (generateMoves ! 17) AND 124141722127900 = 0
   \<and> after (generateMoves ! 17) AND 124141722127900 \<noteq> 0
   \<and> 124141722127900 XOR all (generateMoves ! 17) = INITIAL_BOARD
   \<and> INITIAL_BOARD = (124141722127900 AND NOT (after (generateMoves ! 17)))
        OR before (generateMoves ! 17)
   \<and> INITIAL_BOARD \<notin> seenBoards initialState
   \<and> search_loop exhaustedMoves [generateMoves ! 17] 124141722127900 initialState
       = (True, \<lparr>seenBoards = {INITIAL_BOARD},
                 Solution = [INITIAL_BOARD, 124141722127900]\<rparr>)
   \<and> INITIAL_BOARD
       \<in> seenBoards (snd (search_loop exhaustedMoves [generateMoves ! 17] 124141722127900
            initialState))
   \<and> \<not> (before (generateMoves ! 17) AND INITIAL_BOARD = 0
        \<and> after (generateMoves ! 17) AND INITIAL_BOARD \<noteq> 0)
   \<and> search_loop exhaustedMoves [generateMoves ! 17] INITIAL_BOARD initialState
       = search_loop exhaustedMoves [] INITIAL_BOARD initialState"
proof -
  have legal: "before (generateMoves ! 17) AND 124141722127900 = 0"
      "after (generateMoves ! 17) AND 124141722127900 \<noteq> 0"
    and nb: "124141722127900 XOR all (generateMoves ! 17) = INITIAL_BOARD"
    and new: "INITIAL_BOARD \<notin> seenBoards initialState"
    and illegal: "\<not> (before (generateMoves ! 17) AND INITIAL_BOARD = 0
        \<and> after (generateMoves ! 17) AND INITIAL_BOARD \<noteq> 0)"
    by (simp_all add: generateMoves_table INITIAL_BOARD_def initialState_def)
  from reverse_move_applied [OF exhaustedMoves_mem, of exhaustedMoves "[]" 124141722127900
      initialState]
    reverse_move_applied [OF exhaustedMoves_mem, of exhaustedMoves "[]" INITIAL_BOARD
      initialState]
    legal nb new illegal exhaustedMoves_mem
  show ?thesis
    by (simp add: Let_def initialState_def del: search_loop.simps)
qed

text \<open>
  C4. Every board the search from \<open>GOAL_BOARD\<close> reaches, on any permutation of the
  generated table (\<open>GOAL_BOARD\<close> itself, every board it puts into the visited set, every
  entry of \<open>Solution\<close>), has pegs on valid cells only: \<open>board AND VALID_BOARD_CELLS = board\<close>
  and \<open>board AND NOT VALID_BOARD_CELLS = 0\<close>. All three masks of every generated move lie
  inside \<open>VALID_BOARD_CELLS\<close>.
\<close>

theorem boards_on_valid_cells:
  assumes "mset Moves = mset generateMoves"
    and "b \<in> insert GOAL_BOARD (seenBoards (snd (search Moves GOAL_BOARD initialState)))
           \<union> set (Solution (snd (search Moves GOAL_BOARD initialState)))"
  shows "b AND VALID_BOARD_CELLS = b \<and> b AND NOT VALID_BOARD_CELLS = 0
    \<and> list_all (\<lambda>m. after m AND VALID_BOARD_CELLS = after m
          \<and> before m AND VALID_BOARD_CELLS = before m
          \<and> all m AND VALID_BOARD_CELLS = all m) generateMoves"
proof -
  from assms(1) have "set Moves = set generateMoves" by (rule mset_eq_setD)
  with onBoard_table have tab: "\<forall>m\<in>set Moves. onBoard (all m)"
    by (simp add: list_all_iff)
  have goal: "onBoard GOAL_BOARD"
    by (simp add: onBoard_def GOAL_BOARD_def VALID_BOARD_CELLS_def)
  have init: "\<forall>b\<in>seenBoards initialState \<union> set (Solution initialState). onBoard b"
    by (simp add: initialState_def onBoard_def INITIAL_BOARD_def VALID_BOARD_CELLS_def)
  from search_loop_onBoard [OF tab subset_refl goal init] assms(2) goal
  have "onBoard b" by (auto simp: search_def)
  with onBoard_not [OF this] onBoard_table show ?thesis
    by (simp add: onBoard_def [abs_def])
qed

theorem boards_on_valid_cells_witness:
  "mset shuffledMoves = mset generateMoves
   \<and> 396304 \<in> insert GOAL_BOARD (seenBoards (snd (search shuffledMoves GOAL_BOARD initialState)))
        \<union> set (Solution (snd (search shuffledMoves GOAL_BOARD initialState)))
   \<and> (396304 :: uint64) AND VALID_BOARD_CELLS = 396304
   \<and> (396304 :: uint64) AND NOT VALID_BOARD_CELLS = 0"
proof -
  have mem: "396304 \<in> insert GOAL_BOARD (seenBoards (snd (search shuffledMoves GOAL_BOARD initialState)))
        \<union> set (Solution (snd (search shuffledMoves GOAL_BOARD initialState)))"
    using shuffled_search by simp
  from boards_on_valid_cells [OF shuffled_perm mem] shuffled_perm mem
  show ?thesis by blast
qed

text \<open>
  C7. The search from \<open>GOAL_BOARD\<close> terminates, for every move table and so for every
  permutation of the 76 generated moves: the call is in the domain of the recursion and
  returns a result. The visited set only grows over a call. Every recursive call either
  descends to a board that was not in the visited set and has just been inserted into it,
  leaving strictly fewer of the finitely many boards outside, or continues the loop on the
  same board with the next move.
\<close>

theorem search_terminates:
  "search_loop_dom (Moves, Moves, GOAL_BOARD, initialState)
   \<and> (\<exists>found s'. search Moves GOAL_BOARD initialState = (found, s'))
   \<and> seenBoards s \<subseteq> seenBoards (snd (search_loop Moves ms board s))
   \<and> finite (UNIV - seenBoards s)
   \<and> (search_loop_rel (Moves', ms', board', s') (Moves, ms, board, s) \<longrightarrow>
        ms' = Moves \<and> board' \<notin> seenBoards s \<and> seenBoards s' = insert board' (seenBoards s)
          \<and> card (UNIV - seenBoards s') < card (UNIV - seenBoards s)
        \<or> board' = board \<and> ms \<noteq> [] \<and> ms' = tl ms)"
  using search_loop_dom_all [of "(Moves, Moves, GOAL_BOARD, initialState)"]
    search_loop_seen_mono [of s Moves ms board]
    search_loop_rel_shape [of Moves' ms' board' s' Moves ms board s]
    card_unseen_insert [of board' "seenBoards s"]
  by (auto simp: surjective_pairing [symmetric])

theorem search_terminates_witness:
  "search_loop_rel
     (exhaustedMoves, exhaustedMoves, 12582912, initialState\<lparr>seenBoards := {12582912}\<rparr>)
     (exhaustedMoves, exhaustedMoves, GOAL_BOARD, initialState)
   \<and> search_loop_dom (exhaustedMoves, exhaustedMoves, GOAL_BOARD, initialState)
   \<and> 12582912 \<notin> seenBoards initialState
   \<and> card (UNIV - seenBoards (initialState\<lparr>seenBoards := {12582912}\<rparr>))
       < card (UNIV - seenBoards initialState)"
proof -
  let ?s1 = "initialState\<lparr>seenBoards := {12582912}\<rparr>"
  have "search_loop_rel (exhaustedMoves, exhaustedMoves, 12582912, ?s1)
     (exhaustedMoves, \<lparr>after = 16777216, before = 12582912, all = 29360128\<rparr> # [],
      GOAL_BOARD, initialState)"
    by (rule search_loop_rel.intros(1))
      (simp_all add: GOAL_BOARD_def INITIAL_BOARD_def initialState_def)
  then have call: "search_loop_rel (exhaustedMoves, exhaustedMoves, 12582912, ?s1)
     (exhaustedMoves, exhaustedMoves, GOAL_BOARD, initialState)"
    by (simp add: exhaustedMoves_table [symmetric])
  have "(12582912 :: uint64) \<noteq> GOAL_BOARD"
    by (simp add: GOAL_BOARD_def)
  with search_terminates [of exhaustedMoves initialState exhaustedMoves GOAL_BOARD
      exhaustedMoves exhaustedMoves 12582912 ?s1] call
  show ?thesis by blast
qed

text \<open>
  C8, as the code has it. If the search from \<open>GOAL_BOARD\<close> exhausts all moves, it returns
  false and \<open>Solution\<close> still holds only the seeded \<open>INITIAL_BOARD\<close>; no failing call
  appends anything. \<^verbatim>\<open>main\<close> drops the boolean and prints \<open>Solution\<close> as it is: it
  prints that one board, seven rows and the separator line, and does not panic.
\<close>

theorem search_exhausted:
  assumes "search Moves GOAL_BOARD initialState = (False, s')"
  shows "Solution s' = [INITIAL_BOARD]
    \<and> (\<not> fst (search Moves board s) \<longrightarrow>
         Solution (snd (search Moves board s)) = Solution s)
    \<and> main Moves = main_print [INITIAL_BOARD] 0 []
    \<and> main Moves = Inr (printLine INITIAL_BOARD 0 @ [CHR 0x0A] @ printLine INITIAL_BOARD 1
         @ [CHR 0x0A] @ printLine INITIAL_BOARD 2 @ [CHR 0x0A] @ printLine INITIAL_BOARD 3
         @ [CHR 0x0A] @ printLine INITIAL_BOARD 4 @ [CHR 0x0A] @ printLine INITIAL_BOARD 5
         @ [CHR 0x0A] @ printLine INITIAL_BOARD 6 @ [CHR 0x0A] @ ''-------------'' @ [CHR 0x0A])"
proof -
  have unchanged: "Solution t' = Solution t" if "search Moves b t = (False, t')" for b t t'
    using search_loop_path [of Moves Moves b t False t'] that by (simp add: search_def)
  from unchanged [OF assms] have sol: "Solution s' = [INITIAL_BOARD]"
    by (simp add: initialState_def)
  have "\<not> fst (search Moves board s) \<longrightarrow>
      Solution (snd (search Moves board s)) = Solution s"
    using unchanged [of board s "snd (search Moves board s)"]
    by (cases "search Moves board s") auto
  moreover from assms sol have "main Moves = main_print [INITIAL_BOARD] 0 []"
    by (simp add: main_def)
  ultimately show ?thesis
    using sol print_initial by simp
qed

theorem search_exhausted_witness:
  "search exhaustedMoves GOAL_BOARD initialState
     = (False, \<lparr>seenBoards = {12582912}, Solution = [INITIAL_BOARD]\<rparr>)
   \<and> \<not> fst (search exhaustedMoves GOAL_BOARD initialState)
   \<and> Solution (snd (search exhaustedMoves GOAL_BOARD initialState)) = Solution initialState
   \<and> Solution \<lparr>seenBoards = {12582912}, Solution = [INITIAL_BOARD]\<rparr> = [INITIAL_BOARD]
   \<and> main exhaustedMoves = main_print [INITIAL_BOARD] 0 []"
proof -
  have failed: "\<not> fst (search exhaustedMoves GOAL_BOARD initialState)"
    using exhausted_search by simp
  from search_exhausted [OF exhausted_search, of GOAL_BOARD initialState] failed exhausted_search
  show ?thesis by blast
qed

text \<open>
  The claim as the specification has it, that on exhaustion the caller checks the boolean
  and reports that no solution was found instead of using \<open>Solution\<close>, fails on
  \<open>exhaustedMoves\<close>: the search returns false, and what \<^verbatim>\<open>main\<close> writes is the picture of
  the seeded board. In the later revision the same happens on the generated table as it
  stands, since no search from the goal board parsed there succeeds.
\<close>

theorem search_exhausted_counterexample:
  "fst (search exhaustedMoves GOAL_BOARD initialState) = False
   \<and> main exhaustedMoves
       = Inr (printLine INITIAL_BOARD 0 @ [CHR 0x0A] @ printLine INITIAL_BOARD 1
         @ [CHR 0x0A] @ printLine INITIAL_BOARD 2 @ [CHR 0x0A] @ printLine INITIAL_BOARD 3
         @ [CHR 0x0A] @ printLine INITIAL_BOARD 4 @ [CHR 0x0A] @ printLine INITIAL_BOARD 5
         @ [CHR 0x0A] @ printLine INITIAL_BOARD 6 @ [CHR 0x0A] @ ''-------------'' @ [CHR 0x0A])
   \<and> printLine INITIAL_BOARD 3
       = colorRed @ ''X'' @ colorReset @ colorRed @ ''X'' @ colorReset
         @ colorRed @ ''X'' @ colorReset @ ''0'' @ colorRed @ ''X'' @ colorReset
         @ colorRed @ ''X'' @ colorReset @ colorRed @ ''X'' @ colorReset
   \<and> fst (search generateMoves GOAL_BOARD_parsed initialState) = False
   \<and> main_revised generateMoves = PrintSolution [INITIAL_BOARD]
   \<and> PrintSolution [INITIAL_BOARD]
       = Inr (printLine_prev INITIAL_BOARD INITIAL_BOARD 0 @ [CHR 0x0A]
         @ printLine_prev INITIAL_BOARD INITIAL_BOARD 1 @ [CHR 0x0A]
         @ printLine_prev INITIAL_BOARD INITIAL_BOARD 2 @ [CHR 0x0A]
         @ printLine_prev INITIAL_BOARD INITIAL_BOARD 3 @ [CHR 0x0A]
         @ printLine_prev INITIAL_BOARD INITIAL_BOARD 4 @ [CHR 0x0A]
         @ printLine_prev INITIAL_BOARD INITIAL_BOARD 5 @ [CHR 0x0A]
         @ printLine_prev INITIAL_BOARD INITIAL_BOARD 6 @ [CHR 0x0A]
         @ ''-------------'' @ [CHR 0x0A])"
proof -
  have "main exhaustedMoves = main_print [INITIAL_BOARD] 0 []"
    using exhausted_search by (simp add: main_def)
  moreover have "printLine INITIAL_BOARD 3
       = colorRed @ ''X'' @ colorReset @ colorRed @ ''X'' @ colorReset
         @ colorRed @ ''X'' @ colorReset @ ''0'' @ colorRed @ ''X'' @ colorReset
         @ colorRed @ ''X'' @ colorReset @ colorRed @ ''X'' @ colorReset"
    by (simp add: printLine_def printLine_loop.simps INITIAL_BOARD_def VALID_BOARD_CELLS_def
        Let_def)
  ultimately show ?thesis
    using exhausted_search print_initial revised_main_exhausted PrintSolution_initial by simp
qed

text \<open>
  C9. For a fixed order of the move table, two runs of the search from \<open>GOAL_BOARD\<close>, each
  with nothing visited before, end with the same boolean, leave the same visited set and
  append the same boards to \<open>Solution\<close>, whatever \<open>Solution\<close> held when either run was
  called; seeded alike, as \<^verbatim>\<open>main\<close> seeds it, they end with the same \<open>Solution\<close>. The
  table and the visited set are all that a run depends on. The proviso on the visited set
  is needed: a run called again in the state a successful run has left, with the visited
  set not cleared, does not repeat it but returns false.
\<close>

theorem search_deterministic:
  assumes "seenBoards s = {}" and "seenBoards s' = {}"
  shows "fst (search Moves GOAL_BOARD s) = fst (search Moves GOAL_BOARD s')
    \<and> seenBoards (snd (search Moves GOAL_BOARD s))
        = seenBoards (snd (search Moves GOAL_BOARD s'))
    \<and> (\<exists>path. Solution (snd (search Moves GOAL_BOARD s)) = Solution s @ path
          \<and> Solution (snd (search Moves GOAL_BOARD s')) = Solution s' @ path)
    \<and> (Solution s = Solution s' \<longrightarrow>
         Solution (snd (search Moves GOAL_BOARD s))
           = Solution (snd (search Moves GOAL_BOARD s')))
    \<and> (fst (search Moves GOAL_BOARD s) \<longrightarrow>
         \<not> fst (search Moves GOAL_BOARD (snd (search Moves GOAL_BOARD s))))"
proof -
  from assms have eq: "seenBoards s = seenBoards s'" by simp
  note indep = search_loop_solution_indep [OF eq, of Moves Moves GOAL_BOARD]
  from indep obtain path
    where p: "Solution (snd (search Moves GOAL_BOARD s)) = Solution s @ path"
      "Solution (snd (search Moves GOAL_BOARD s')) = Solution s' @ path"
    by (auto simp: search_def)
  from p have "Solution s = Solution s' \<longrightarrow>
      Solution (snd (search Moves GOAL_BOARD s)) = Solution (snd (search Moves GOAL_BOARD s'))"
    by simp
  moreover have "fst (search Moves GOAL_BOARD s) \<longrightarrow>
      \<not> fst (search Moves GOAL_BOARD (snd (search Moves GOAL_BOARD s)))"
    using search_loop_found_initial [of Moves Moves GOAL_BOARD s]
      search_loop_initial_seen [of "snd (search Moves GOAL_BOARD s)" Moves Moves GOAL_BOARD]
    by (auto simp: search_def)
  ultimately show ?thesis
    using indep p by (simp add: search_def)
qed

text \<open>
  On the shuffled table: the run that \<^verbatim>\<open>main\<close> makes, with \<open>Solution\<close> seeded, and a
  run with \<open>Solution\<close> empty both succeed, and the second has appended the 31 boards that
  the first has appended after its seed; a third run, called in the state the first has
  left, returns false.
\<close>

theorem search_deterministic_witness:
  "seenBoards initialState = {}
   \<and> seenBoards \<lparr>seenBoards = {}, Solution = []\<rparr> = {}
   \<and> fst (search shuffledMoves GOAL_BOARD initialState)
   \<and> fst (search shuffledMoves GOAL_BOARD \<lparr>seenBoards = {}, Solution = []\<rparr>)
   \<and> Solution (snd (search shuffledMoves GOAL_BOARD \<lparr>seenBoards = {}, Solution = []\<rparr>)) =
       [124141634047516, 123587616820764, 123725055774236,
        123861412597276, 106132861341212, 106132869663772, 106132869680156,
        106132861226524, 106132320194076, 106132049677852, 106132049694236,
        106132058016796, 106268414839836, 18307484617756, 578933361692,
        578950138908, 578983429148, 578982118428, 561669080092,
        553012560924, 554086302748, 554052488220, 554052748300,
        35521548, 1707020, 396300, 396304,
        527376, 787456, 132096, 16777216]
   \<and> \<not> fst (search shuffledMoves GOAL_BOARD (snd (search shuffledMoves GOAL_BOARD initialState)))
   \<and> Solution initialState = Solution \<lparr>seenBoards = {}, Solution = [INITIAL_BOARD]\<rparr>
   \<and> Solution (snd (search shuffledMoves GOAL_BOARD initialState))
       = Solution (snd (search shuffledMoves GOAL_BOARD
            \<lparr>seenBoards = {}, Solution = [INITIAL_BOARD]\<rparr>))"
proof -
  let ?e = "\<lparr>seenBoards = {}, Solution = []\<rparr>"
  let ?i = "\<lparr>seenBoards = {}, Solution = [INITIAL_BOARD]\<rparr>"
  have e: "seenBoards initialState = {}" "seenBoards ?e = {}" "seenBoards ?i = {}"
    and sol: "Solution initialState = [INITIAL_BOARD]" "Solution ?e = []"
      "Solution ?i = [INITIAL_BOARD]"
    by (simp_all add: initialState_def)
  note run = shuffled_search
  note d1 = search_deterministic [OF e(1) e(2), of shuffledMoves, unfolded sol]
  note d2 = search_deterministic [OF e(1) e(3), of shuffledMoves, unfolded sol]
  from d1 run have "fst (search shuffledMoves GOAL_BOARD ?e)" by simp
  moreover from d1 run
  have "Solution (snd (search shuffledMoves GOAL_BOARD ?e)) =
       [124141634047516, 123587616820764, 123725055774236,
        123861412597276, 106132861341212, 106132869663772, 106132869680156,
        106132861226524, 106132320194076, 106132049677852, 106132049694236,
        106132058016796, 106268414839836, 18307484617756, 578933361692,
        578950138908, 578983429148, 578982118428, 561669080092,
        553012560924, 554086302748, 554052488220, 554052748300,
        35521548, 1707020, 396300, 396304,
        527376, 787456, 132096, 16777216]"
    by (auto simp: INITIAL_BOARD_def)
  moreover from d1 run
  have "\<not> fst (search shuffledMoves GOAL_BOARD (snd (search shuffledMoves GOAL_BOARD initialState)))"
    by simp
  moreover from d2
  have "Solution (snd (search shuffledMoves GOAL_BOARD initialState))
       = Solution (snd (search shuffledMoves GOAL_BOARD ?i))"
    by simp
  ultimately show ?thesis
    using e sol run by simp
qed

text \<open>
  C10. Printing never indexes \<open>Solution\<close> outside \<open>0 .. len(Solution) - 1\<close>: for every
  list of boards, of length 1 or 32 or any other, the printing loop of \<^verbatim>\<open>main\<close> runs
  to its end without a panic, and so does \<^verbatim>\<open>PrintSolution\<close> of the later revision,
  which also reads the previous entry; hence both programs print for every move table,
  also after an exhausted search. A block that starts at entry \<open>i\<close> shows
  \<open>min 16 (len(Solution) - i)\<close> boards: the inner loop stops after 16 of them or right
  after the last entry, whichever comes first.
\<close>

theorem printing_in_bounds:
  "(\<exists>out. main_print solution 0 [] = Inr out)
   \<and> (\<exists>out. PrintSolution solution = Inr out)
   \<and> (\<exists>out. main Moves = Inr out)
   \<and> (\<exists>out. main_revised Moves = Inr out)
   \<and> (0 \<le> i \<and> i < int (length solution) \<longrightarrow>
        (\<exists>out'. main_rows solution i 0 0 out
           = Inr (min 16 (int (length solution) - i), out'))
        \<and> (\<exists>out'. PrintSolution_rows solution i 0 0 out
           = Inr (min 16 (int (length solution) - i), out')))"
  using main_print_ok [of 0 solution "[]"] PrintSolution_loop_ok [of 0 solution "[]"]
    main_print_ok [of 0 "Solution (snd (search Moves GOAL_BOARD initialState))" "[]"]
    PrintSolution_loop_ok [of 0 "Solution (snd (search Moves GOAL_BOARD_parsed initialState))" "[]"]
    main_rows_ok [of i solution 0 0 out] PrintSolution_rows_ok [of i solution 0 0 out]
  by (simp add: PrintSolution_def main_def main_revised_def split_beta)

theorem printing_in_bounds_witness:
  "0 \<le> (0 :: int) \<and> (0 :: int) < int (length [INITIAL_BOARD])
   \<and> (\<exists>out'. main_rows [INITIAL_BOARD] 0 0 0 [] = Inr (1, out'))
   \<and> (\<exists>out. main_print [INITIAL_BOARD] 0 [] = Inr out)"
  using printing_in_bounds [of "[INITIAL_BOARD]" "[]" 0 "[]"] by simp

end
